theory Spec2Isabelle
  imports Main "HOL-Library.Sublist"
begin

section \<open>Strings of the host language\<close>

text \<open>
  The terminal widget of \<^verbatim>\<open>TerminalPreview\<close> works on JavaScript strings, which are
  sequences of UTF-16 code units. A code unit is modelled as a natural number (always below
  65536 in the program), a string as the list of its units. \<open>js\<close> reads an ASCII literal.
\<close>

type_synonym jsstring = "nat list"

definition js :: "string \<Rightarrow> jsstring" where
  "js s = map of_char s"

text \<open>
  The characters that \<^verbatim>\<open>String.prototype.trim\<close> strips and that the regular expression
  class \<^verbatim>\<open>\s\<close> matches: WhiteSpace and LineTerminator of ECMAScript (TAB, LF, VT, FF, CR,
  SP, NBSP, U+1680, U+2000..U+200A, U+2028, U+2029, U+202F, U+205F, U+3000, U+FEFF).
\<close>

definition isWhiteSpace :: "nat \<Rightarrow> bool" where
  "isWhiteSpace c \<longleftrightarrow>
     (9 \<le> c \<and> c \<le> 13) \<or> c = 32 \<or> c = 0xA0 \<or> c = 0x1680 \<or> (0x2000 \<le> c \<and> c \<le> 0x200A) \<or>
     c = 0x2028 \<or> c = 0x2029 \<or> c = 0x202F \<or> c = 0x205F \<or> c = 0x3000 \<or> c = 0xFEFF"

definition trim :: "jsstring \<Rightarrow> jsstring" where
  "trim s = rev (dropWhile isWhiteSpace (rev (dropWhile isWhiteSpace s)))"

text \<open>
  \<^verbatim>\<open>toLowerCase\<close>. Its result is used only in comparisons with ASCII strings (the triggers,
  \<^verbatim>\<open>'clear'\<close> and \<^verbatim>\<open>''\<close>), so the model is exact on every code unit whose lower-case
  form contains an ASCII unit: \<open>A\<close>..\<open>Z\<close>, U+0130 (which becomes \<open>i\<close> followed by U+0307) and
  the Kelvin sign U+212A (which becomes \<open>k\<close>). Every other unit has a non-empty lower-case form
  without ASCII units and without white space; the model passes it through unchanged, which
  gives each of those comparisons the same outcome.
\<close>

definition lowerUnit :: "nat \<Rightarrow> jsstring" where
  "lowerUnit c =
     (if 65 \<le> c \<and> c \<le> 90 then [c + 32]
      else if c = 0x130 then [105, 0x307]
      else if c = 0x212A then [107]
      else [c])"

definition toLowerCase :: "jsstring \<Rightarrow> jsstring" where
  "toLowerCase s = concat (map lowerUnit s)"

text \<open>\<^verbatim>\<open>s.replace(/\s+/g, ' ')\<close>: every maximal run of white space becomes one space.\<close>

function replace_ws :: "jsstring \<Rightarrow> jsstring" where
  "replace_ws [] = []"
| "replace_ws (c # cs) =
     (if isWhiteSpace c then 32 # replace_ws (dropWhile isWhiteSpace cs)
      else c # replace_ws cs)"
  by pat_completeness auto
termination
  by (relation "measure length") (auto simp: length_dropWhile_le less_Suc_eq_le)

definition startsWith :: "jsstring \<Rightarrow> jsstring \<Rightarrow> bool" where
  "startsWith s p \<longleftrightarrow> take (length p) s = p"

text \<open>
  \<^verbatim>\<open>text.split(' ')\<close>: the tokens between single spaces; two adjacent spaces give an empty
  token, and the empty string gives one empty token.
\<close>

fun split_from :: "jsstring \<Rightarrow> jsstring \<Rightarrow> jsstring list" where
  "split_from tok [] = [tok]"
| "split_from tok (c # cs) =
     (if c = 32 then tok # split_from [] cs else split_from (tok @ [c]) cs)"

definition split_space :: "jsstring \<Rightarrow> jsstring list" where
  "split_space text = split_from [] text"

section \<open>The command table\<close>

record Command =
  output' :: jsstring
  delay :: nat

definition help_output :: jsstring where
  "help_output =
    [0xD83E, 0xDD77] @ js '' SHURIKEN CLI '' @ [0x2014] @ js '' Available Packages'' @
    [10, 10, 0x2500, 0x2500] @ js '' UI-KIT '' @ replicate 21 0x2500 @ [10] @
    js ''  setup       Install and configure UI components'' @ [10] @
    js ''  update      Migrate UI components to newer versions'' @ [10] @
    js ''  component   Generate a new UI component'' @ [10, 10, 0x2500, 0x2500] @
    js '' JARVIS '' @ replicate 21 0x2500 @ [10] @
    js ''  setup       Install and configure AI tools'' @ [10] @
    js ''  component   Generate a React component template'' @ [10] @
    js ''  deploy      Deploy application to production'' @ [10, 10, 0x2500, 0x2500] @
    js '' BACKEND-TOOLS '' @ replicate 14 0x2500 @ [10] @
    js ''  setup       Setup backend development environment'' @ [10] @
    js ''  migrate     Run database migrations'' @ [10] @
    js ''  seed        Seed database with test data'' @ [10, 10] @ js ''Type '' @ [39] @
    js ''shuriken <package> <command>'' @ [39] @ js '' to run a command'' @ [10] @
    js ''Type '' @ [39] @ js ''clear'' @ [39] @ js '' to clear the terminal''"

definition ui_kit_setup_output :: jsstring where
  "ui_kit_setup_output =
    [0xD83C, 0xDFAF] @ js '' Setting up UI-KIT package...'' @ [10, 10, 0x2705] @
    js '' Installing dependencies...'' @ [10, 0x2705] @ js '' Configuring Tailwind CSS...'' @
    [10, 0x2705] @ js '' Setting up component library...'' @ [10, 0x2705] @
    js '' Creating example components...'' @ [10, 0x2705] @ js '' Running initial build...'' @
    [10, 10, 0xD83D, 0xDE80] @ js '' UI-KIT setup completed successfully!'' @ [10] @
    js ''   '' @ [10, 0xD83D, 0xDCC1] @
    js '' Components available in: ./packages/ui-kit/components'' @ [10, 0xD83D, 0xDCD6] @
    js '' Documentation: ./packages/ui-kit/README.md''"

definition jarvis_component_button_output :: jsstring where
  "jarvis_component_button_output =
    [0xD83E, 0xDD16] @ js '' Generating React component: Button'' @ [10, 10, 0x2705] @
    js '' Created ./src/components/Button/Button.tsx'' @ [10, 0x2705] @
    js '' Created ./src/components/Button/Button.module.css'' @ [10, 0x2705] @
    js '' Created ./src/components/Button/Button.test.tsx'' @ [10, 0x2705] @
    js '' Created ./src/components/Button/index.ts'' @ [10, 0x2705] @
    js '' Updated ./src/components/index.ts'' @ [10, 10, 0xD83C, 0xDF89] @ js '' Component '' @
    [39] @ js ''Button'' @ [39] @ js '' generated successfully!''"

definition backend_tools_migrate_output :: jsstring where
  "backend_tools_migrate_output =
    [0x26A1] @ js '' Running database migrations...'' @ [10, 10, 0x2705] @
    js '' Migration 001_create_users_table.sql'' @ [10, 0x2705] @
    js '' Migration 002_create_posts_table.sql  '' @ [10, 0x2705] @
    js '' Migration 003_add_user_roles.sql'' @ [10, 0x2705] @
    js '' Migration 004_create_sessions_table.sql'' @ [10, 10, 0xD83C, 0xDFAF] @
    js '' All migrations completed successfully!'' @ [10, 0xD83D, 0xDCCA] @
    js '' Database schema is up to date''"

definition version_output :: jsstring where
  "version_output =
    [0xD83E, 0xDD77] @ js '' Shuriken CLI v2.1.0'' @ [10] @ js ''Built with '' @
    [0x2764, 0xFE0F] @ js '' for ninja developers''"

text \<open>
  \<^verbatim>\<open>DEMO_COMMANDS\<close> in the order of \<^verbatim>\<open>Object.entries\<close>: no key is an array index, so
  the entries come in declaration order.
\<close>

definition DEMO_COMMANDS :: "(jsstring \<times> Command) list" where
  "DEMO_COMMANDS =
    [(js ''help'', \<lparr>output' = help_output, delay = 50\<rparr>),
     (js ''ui-kit setup'', \<lparr>output' = ui_kit_setup_output, delay = 80\<rparr>),
     (js ''jarvis component button'', \<lparr>output' = jarvis_component_button_output, delay = 60\<rparr>),
     (js ''backend-tools migrate'', \<lparr>output' = backend_tools_migrate_output, delay = 70\<rparr>),
     (js ''version'', \<lparr>output' = version_output, delay = 30\<rparr>)]"

definition SUGGESTIONS :: "jsstring list" where
  "SUGGESTIONS =
    [js ''help'', js ''ui-kit setup'', js ''jarvis component button'',
     js ''backend-tools migrate'', js ''version'', js ''clear'']"

text \<open>
  The lookup of \<^verbatim>\<open>executeCommand\<close>: the trimmed, lower-cased command has its white space
  collapsed and is trimmed again; so is each key; the first entry whose key equals the
  command or is followed in it by a space is the match.
\<close>

definition normalizedCommand :: "jsstring \<Rightarrow> jsstring" where
  "normalizedCommand trimmedCommand = trim (replace_ws trimmedCommand)"

definition keyMatches :: "jsstring \<Rightarrow> jsstring \<Rightarrow> bool" where
  "keyMatches normalized key =
     (let normalizedKey = trim (replace_ws key)
      in normalized = normalizedKey \<or> startsWith normalized (normalizedKey @ js '' ''))"

definition matchedCommand :: "jsstring \<Rightarrow> (jsstring \<times> Command) option" where
  "matchedCommand trimmedCommand =
     find (\<lambda>(key, config). keyMatches (normalizedCommand trimmedCommand) key) DEMO_COMMANDS"

section \<open>The state of the terminal widget\<close>

datatype line_type = Input | Output | Error | Info

record TerminalLine =
  type :: line_type
  content :: jsstring
  timestamp :: "jsstring option"

text \<open>
  An \<^verbatim>\<open>executeCommand\<close> call is asynchronous: it runs up to an \<^verbatim>\<open>await\<close> of a timer and is
  resumed when the timer fires. A task is such a suspended call: \<open>Sleeping\<close> waits for the
  500 ms pause after the lookup and holds \<^verbatim>\<open>matchedCommand\<close> and \<^verbatim>\<open>command\<close>; \<open>Typing\<close> waits
  inside the loop of \<^verbatim>\<open>typewriterEffect\<close> and holds \<^verbatim>\<open>words\<close>, the next \<^verbatim>\<open>i\<close>,
  \<^verbatim>\<open>currentText\<close>, \<^verbatim>\<open>timestamp\<close> and \<^verbatim>\<open>delay\<close>.
\<close>

datatype task =
    Sleeping "(jsstring \<times> Command) option" jsstring
  | Typing "jsstring list" nat jsstring jsstring nat

text \<open>
  The hooks of the component. \<open>currentInput\<close> is \<open>None\<close> when the program has stored
  \<^verbatim>\<open>undefined\<close> in it (an out-of-range read of the history); \<open>tasks\<close> are the calls of
  \<^verbatim>\<open>executeCommand\<close> that are suspended. The theme flag has no part in any handler below.
\<close>

record state =
  lines :: "TerminalLine list"
  currentInput :: "jsstring option"
  isProcessing :: bool
  commandHistory :: "jsstring list"
  historyIndex :: int
  tasks :: "task list"

text \<open>The first render; \<open>now\<close> is what \<^verbatim>\<open>formatTime()\<close> returns at that moment.\<close>

definition initial :: "jsstring \<Rightarrow> state" where
  "initial now =
     \<lparr>lines =
        [\<lparr>type = Info,
          content = [0xD83E, 0xDD77] @ js '' Welcome to Shuriken CLI Interactive Demo'',
          timestamp = Some now\<rparr>,
         \<lparr>type = Info,
          content = js ''Type '' @ [34] @ js ''help'' @ [34] @
            js '' to see available commands, or try the suggestions below.'',
          timestamp = Some now\<rparr>],
      currentInput = Some [],
      isProcessing = False,
      commandHistory = [],
      historyIndex = - 1,
      tasks = []\<rparr>"

section \<open>The operations\<close>

text \<open>\<^verbatim>\<open>addLine\<close>: a missing or empty timestamp is replaced by the current time.\<close>

definition addLine :: "jsstring \<Rightarrow> TerminalLine \<Rightarrow> TerminalLine list \<Rightarrow> TerminalLine list" where
  "addLine now line prev =
     prev @ [line\<lparr>timestamp :=
       Some (case timestamp line of None \<Rightarrow> now | Some t \<Rightarrow> if t = [] then now else t)\<rparr>]"

text \<open>
  The update inside the loop of \<^verbatim>\<open>typewriterEffect\<close>: the last line is replaced when it is
  an output line, and nothing happens otherwise (also when there is no line).
\<close>

definition setLastOutput :: "jsstring \<Rightarrow> jsstring \<Rightarrow> TerminalLine list \<Rightarrow> TerminalLine list" where
  "setLastOutput currentText ts prev =
     (if prev \<noteq> [] \<and> type (last prev) = Output
      then prev[length prev - 1 := \<lparr>type = Output, content = currentText, timestamp = Some ts\<rparr>]
      else prev)"

text \<open>
  One pass through the head of the \<^verbatim>\<open>for\<close> loop of \<^verbatim>\<open>typewriterEffect\<close>, for the task at
  position \<open>k\<close>: either the body runs and the task waits for \<^verbatim>\<open>delay\<close> again, or the loop
  is over, \<^verbatim>\<open>typewriterEffect\<close> returns and \<^verbatim>\<open>executeCommand\<close> clears the processing flag.
\<close>

definition typewriterLoop ::
    "nat \<Rightarrow> jsstring list \<Rightarrow> nat \<Rightarrow> jsstring \<Rightarrow> jsstring \<Rightarrow> nat \<Rightarrow> state \<Rightarrow> state" where
  "typewriterLoop k words i currentText ts dl s =
     (if i < length words then
        let currentText' = currentText @ (if i > 0 then js '' '' else []) @ words ! i
        in s\<lparr>lines := setLastOutput currentText' ts (lines s),
             tasks := (tasks s)[k := Typing words (i + 1) currentText' ts dl]\<rparr>
      else s\<lparr>isProcessing := False, tasks := take k (tasks s) @ drop (Suc k) (tasks s)\<rparr>)"

text \<open>The start of \<^verbatim>\<open>typewriterEffect\<close>, up to its first \<^verbatim>\<open>await\<close>.\<close>

definition typewriterEffect :: "jsstring \<Rightarrow> nat \<Rightarrow> jsstring \<Rightarrow> nat \<Rightarrow> state \<Rightarrow> state" where
  "typewriterEffect now k text dl s =
     (let words = split_space text;
          currentText = [];
          ts = now
      in typewriterLoop k words 0 currentText ts dl
           (s\<lparr>lines := lines s @ [\<lparr>type = Output, content = [], timestamp = Some ts\<rparr>]\<rparr>))"

text \<open>\<^verbatim>\<open>executeCommand\<close>, up to its first \<^verbatim>\<open>await\<close>.\<close>

definition executeCommand :: "jsstring \<Rightarrow> jsstring \<Rightarrow> state \<Rightarrow> state" where
  "executeCommand now command s =
     (let trimmedCommand = toLowerCase (trim command)
      in if trimmedCommand = js ''clear'' then
           s\<lparr>lines :=
               [\<lparr>type = Info,
                 content = [0xD83E, 0xDD77] @ js '' Terminal cleared'',
                 timestamp = Some now\<rparr>]\<rparr>
         else if trimmedCommand = [] then s
         else
           s\<lparr>commandHistory := commandHistory s @ [command],
             historyIndex := - 1,
             lines :=
               addLine now
                 \<lparr>type = Input, content = js ''$ shuriken '' @ command, timestamp = None\<rparr>
                 (lines s),
             isProcessing := True,
             tasks := tasks s @ [Sleeping (matchedCommand trimmedCommand) command]\<rparr>)"

text \<open>The rest of \<^verbatim>\<open>executeCommand\<close>, after the 500 ms pause, for the task at position \<open>k\<close>.\<close>

definition resume :: "jsstring \<Rightarrow> nat \<Rightarrow> (jsstring \<times> Command) option \<Rightarrow> jsstring \<Rightarrow> state \<Rightarrow> state" where
  "resume now k matched command s =
     (case matched of
        Some (key, config) \<Rightarrow> typewriterEffect now k (output' config) (delay config) s
      | None \<Rightarrow>
          s\<lparr>lines :=
               addLine now
                 \<lparr>type = Error,
                  content = [0x274C] @ js '' Command not found: '' @ command @ [10] @
                    js ''Type '' @ [39] @ js ''help'' @ [39] @ js '' to see available commands.'',
                  timestamp = None\<rparr>
                 (lines s),
            isProcessing := False,
            tasks := take k (tasks s) @ drop (Suc k) (tasks s)\<rparr>)"

text \<open>A timer fires and the task at position \<open>k\<close> runs up to its next \<^verbatim>\<open>await\<close> or to its end.\<close>

definition wake :: "jsstring \<Rightarrow> nat \<Rightarrow> state \<Rightarrow> state" where
  "wake now k s =
     (if k < length (tasks s) then
        (case tasks s ! k of
           Sleeping matched command \<Rightarrow> resume now k matched command s
         | Typing words i currentText ts dl \<Rightarrow> typewriterLoop k words i currentText ts dl s)
      else s)"

text \<open>\<^verbatim>\<open>commandHistory[newIndex]\<close>: \<^verbatim>\<open>undefined\<close> out of range.\<close>

definition at_index :: "'a list \<Rightarrow> int \<Rightarrow> 'a option" where
  "at_index xs i = (if 0 \<le> i \<and> i < int (length xs) then Some (xs ! nat i) else None)"

datatype key = Enter | ArrowUp | ArrowDown | OtherKey

text \<open>
  \<^verbatim>\<open>handleKeyDown\<close>. With \<^verbatim>\<open>undefined\<close> in the input buffer, \<^verbatim>\<open>currentInput.trim()\<close> throws
  and the handler ends there.
\<close>

definition handleKeyDown :: "jsstring \<Rightarrow> key \<Rightarrow> state \<Rightarrow> state" where
  "handleKeyDown now e s =
     (case e of
        Enter \<Rightarrow>
          (case currentInput s of
             None \<Rightarrow> s
           | Some input \<Rightarrow>
               if \<not> isProcessing s \<and> trim input \<noteq> []
               then (executeCommand now input s)\<lparr>currentInput := Some []\<rparr>
               else s)
      | ArrowUp \<Rightarrow>
          if length (commandHistory s) > 0 then
            let newIndex =
                  (if historyIndex s = - 1 then int (length (commandHistory s)) - 1
                   else max 0 (historyIndex s - 1))
            in s\<lparr>historyIndex := newIndex,
                 currentInput := at_index (commandHistory s) newIndex\<rparr>
          else s
      | ArrowDown \<Rightarrow>
          if historyIndex s > - 1 then
            let newIndex = historyIndex s + 1
            in if newIndex \<ge> int (length (commandHistory s))
               then s\<lparr>historyIndex := - 1, currentInput := Some []\<rparr>
               else s\<lparr>historyIndex := newIndex,
                      currentInput := at_index (commandHistory s) newIndex\<rparr>
          else s
      | OtherKey \<Rightarrow> s)"

definition handleSuggestionClick :: "jsstring \<Rightarrow> state \<Rightarrow> state" where
  "handleSuggestionClick suggestion s =
     (if \<not> isProcessing s then s\<lparr>currentInput := Some suggestion\<rparr> else s)"

text \<open>
  The events of the widget: a key pressed in the input field, its \<^verbatim>\<open>onChange\<close> with the new
  text, a click on a suggestion button, and the timer of the task at a position. Events are
  handled one at a time; each sees the state the previous one left. The \<^verbatim>\<open>disabled\<close>
  attribute of the field and of the buttons only withholds events while the processing flag
  is set, so the runs of the widget are among the runs of this model.
\<close>

datatype event =
    KeyDown key
  | Change jsstring
  | SuggestionClick jsstring
  | Timer nat

fun step :: "jsstring \<Rightarrow> event \<Rightarrow> state \<Rightarrow> state" where
  "step now (KeyDown e) s = handleKeyDown now e s"
| "step now (Change v) s = s\<lparr>currentInput := Some v\<rparr>"
| "step now (SuggestionClick suggestion) s = handleSuggestionClick suggestion s"
| "step now (Timer k) s = wake now k s"

inductive reachable :: "state \<Rightarrow> bool" where
  reachable_initial: "reachable (initial now)"
| reachable_step: "reachable s \<Longrightarrow> reachable (step now e s)"

section \<open>Runs of the widget\<close>

text \<open>
  The number of timer expirations after which a suspended call has run to its end: one for
  the pause, then one per token, the last of them followed by the test that ends the loop.
\<close>

fun ticks :: "task \<Rightarrow> nat" where
  "ticks (Sleeping None command) = 1"
| "ticks (Sleeping (Some (key, config)) command) = Suc (length (split_space (output' config)))"
| "ticks (Typing words i currentText ts dl) = Suc (length words - i)"

text \<open>\<open>n\<close> expirations of the timer of the first task, the \<open>m\<close>-th at time \<open>clock m\<close>.\<close>

fun wakes :: "nat \<Rightarrow> (nat \<Rightarrow> jsstring) \<Rightarrow> state \<Rightarrow> state" where
  "wakes 0 clock s = s"
| "wakes (Suc n) clock s = wakes n (\<lambda>m. clock (Suc m)) (step (clock 0) (Timer 0) s)"

text \<open>Letting the call in flight, if there is one, run to its end.\<close>

definition await :: "(nat \<Rightarrow> jsstring) \<Rightarrow> state \<Rightarrow> state" where
  "await clock s = (case tasks s of [] \<Rightarrow> s | t # ts \<Rightarrow> wakes (ticks t) clock s)"

text \<open>Typing a command into the field, pressing Enter and waiting for the answer.\<close>

definition submit :: "jsstring \<Rightarrow> (nat \<Rightarrow> jsstring) \<Rightarrow> jsstring \<Rightarrow> state \<Rightarrow> state" where
  "submit now clock command s =
     await clock (step now (KeyDown Enter) (step now (Change command) s))"

text \<open>Submitting the commands of a list one after the other, each answered before the next.\<close>

fun submit_all :: "jsstring \<Rightarrow> (nat \<Rightarrow> jsstring) \<Rightarrow> jsstring list \<Rightarrow> state \<Rightarrow> state" where
  "submit_all now clock [] s = s"
| "submit_all now clock (command # commands) s =
     submit_all now clock commands (submit now clock command s)"

text \<open>Pressing ArrowUp \<open>n\<close> times.\<close>

definition recall :: "jsstring \<Rightarrow> nat \<Rightarrow> state \<Rightarrow> state" where
  "recall now n s = (step now (KeyDown ArrowUp) ^^ n) s"

text \<open>The value of \<^verbatim>\<open>currentText\<close> after \<open>n\<close> passes through the loop of \<^verbatim>\<open>typewriterEffect\<close>.\<close>

fun revealed :: "jsstring list \<Rightarrow> nat \<Rightarrow> jsstring" where
  "revealed words 0 = []"
| "revealed words (Suc i) = revealed words i @ (if i > 0 then js '' '' else []) @ words ! i"

section \<open>Notions of the specification\<close>

text \<open>
  The normal form of an input in the words of the specification: trimmed, lower-cased, each
  run of white space collapsed to one space.
\<close>

definition spec_normalized :: "jsstring \<Rightarrow> jsstring" where
  "spec_normalized command = replace_ws (toLowerCase (trim command))"

text \<open>A normalized input equals the trigger or starts with the trigger and a space.\<close>

definition spec_triggered :: "jsstring \<Rightarrow> jsstring \<Rightarrow> bool" where
  "spec_triggered normalized trigger \<longleftrightarrow>
     normalized = trigger \<or> startsWith normalized (trigger @ js '' '')"

text \<open>A string without white space at either end.\<close>

definition no_edge_space :: "jsstring \<Rightarrow> bool" where
  "no_edge_space s \<longleftrightarrow> s = [] \<or> (\<not> isWhiteSpace (hd s) \<and> \<not> isWhiteSpace (last s))"

text \<open>The tokens joined by single spaces.\<close>

definition join_space :: "jsstring list \<Rightarrow> jsstring" where
  "join_space ws = (case ws of [] \<Rightarrow> [] | w # ws' \<Rightarrow> w @ concat (map ((#) 32) ws'))"

text \<open>An input that is neither blank nor the \<^verbatim>\<open>clear\<close> command.\<close>

definition ordinary :: "jsstring \<Rightarrow> bool" where
  "ordinary command \<longleftrightarrow>
     toLowerCase (trim command) \<noteq> js ''clear'' \<and> toLowerCase (trim command) \<noteq> []"

text \<open>The event is an accepted submission of \<^verbatim>\<open>clear\<close>.\<close>

definition clears :: "event \<Rightarrow> state \<Rightarrow> bool" where
  "clears e s \<longleftrightarrow>
     e = KeyDown Enter \<and> \<not> isProcessing s \<and>
     (case currentInput s of
        None \<Rightarrow> False
      | Some input \<Rightarrow> toLowerCase (trim input) = js ''clear'')"

text \<open>At most one call is in flight, and the processing flag is set exactly while one is.\<close>

definition one_in_flight :: "state \<Rightarrow> bool" where
  "one_in_flight s \<longleftrightarrow> length (tasks s) \<le> 1 \<and> (isProcessing s \<longleftrightarrow> tasks s \<noteq> [])"

text \<open>The history cursor is inactive or indexes an entry.\<close>

definition cursor_valid :: "state \<Rightarrow> bool" where
  "cursor_valid s \<longleftrightarrow>
     historyIndex s = - 1 \<or>
     (0 \<le> historyIndex s \<and> historyIndex s < int (length (commandHistory s)))"

text \<open>While a reveal waits in its loop, the last line is the output line it is writing.\<close>

fun writes_last :: "task \<Rightarrow> TerminalLine list \<Rightarrow> bool" where
  "writes_last (Sleeping matched command) ls = True"
| "writes_last (Typing words i currentText ts dl) ls =
     (ls \<noteq> [] \<and> last ls = \<lparr>type = Output, content = currentText, timestamp = Some ts\<rparr>)"

definition reveal_line :: "state \<Rightarrow> bool" where
  "reveal_line s \<longleftrightarrow> list_all (\<lambda>t. writes_last t (lines s)) (tasks s)"

definition well_formed :: "state \<Rightarrow> bool" where
  "well_formed s \<longleftrightarrow> one_in_flight s \<and> cursor_valid s \<and> reveal_line s"

text \<open>
  A reveal that waits in its loop writes its next token: the transcript ends with the output
  line holding \<^verbatim>\<open>currentText\<close>, and in the new transcript that one line holds \<^verbatim>\<open>currentText\<close>
  followed by the next word, after a space for all words but the first. A call that waits
  for its pause writes nothing in this way.
\<close>

fun writes_token :: "task \<Rightarrow> TerminalLine list \<Rightarrow> TerminalLine list \<Rightarrow> bool" where
  "writes_token (Sleeping matched command) old new = False"
| "writes_token (Typing words i currentText ts dl) old new =
     (i < length words \<and> old \<noteq> [] \<and>
      last old = \<lparr>type = Output, content = currentText, timestamp = Some ts\<rparr> \<and>
      new = butlast old @
        [\<lparr>type = Output,
          content = currentText @ (if 0 < i then js '' '' else []) @ words ! i,
          timestamp = Some ts\<rparr>])"

text \<open>
  The transcript of a state and a later transcript: either the later one is the earlier one
  with lines added at the end, or a reveal in flight in that state has written its next token
  into its output line, the last line, and every other line is as before.
\<close>

definition kept :: "state \<Rightarrow> TerminalLine list \<Rightarrow> bool" where
  "kept s new \<longleftrightarrow>
     prefix (lines s) new \<or> list_ex (\<lambda>t. writes_token t (lines s) new) (tasks s)"

section \<open>Properties of the string operations\<close>

lemma lowerUnit_not_Nil [simp]: "lowerUnit c \<noteq> []"
  by (simp add: lowerUnit_def)

lemma toLowerCase_Nil_iff [simp]: "toLowerCase s = [] \<longleftrightarrow> s = []"
  by (cases s) (simp_all add: toLowerCase_def)

lemma toLowerCase_append: "toLowerCase (a @ b) = toLowerCase a @ toLowerCase b"
  by (simp add: toLowerCase_def)

lemma toLowerCase_single: "toLowerCase [c] = lowerUnit c"
  by (simp add: toLowerCase_def)

lemma dropWhile_last_keep:
  "dropWhile P xs \<noteq> [] \<Longrightarrow> last (dropWhile P xs) = last xs"
  by (induction xs) (auto split: if_splits)

lemma trim_no_edge_space: "no_edge_space (trim s)"
proof (cases "dropWhile isWhiteSpace s = []")
  case True
  have "trim s = []" unfolding trim_def True by simp
  then show ?thesis by (simp add: no_edge_space_def)
next
  case False
  let ?a = "dropWhile isWhiteSpace s"
  let ?b = "dropWhile isWhiteSpace (rev ?a)"
  have a: "\<not> isWhiteSpace (hd ?a)" using False by (rule hd_dropWhile)
  show ?thesis
  proof (cases "?b = []")
    case True
    have "trim s = []" unfolding trim_def True by simp
    then show ?thesis by (simp add: no_edge_space_def)
  next
    case nb: False
    have b: "\<not> isWhiteSpace (hd ?b)" using nb by (rule hd_dropWhile)
    have "last ?b = last (rev ?a)" using nb by (rule dropWhile_last_keep)
    also have "\<dots> = hd ?a" using False by (simp add: last_rev)
    finally have "hd (rev ?b) = hd ?a" using nb by (simp add: hd_rev)
    moreover have "last (rev ?b) = hd ?b" using nb by (simp add: last_rev)
    ultimately show ?thesis using a b by (simp add: trim_def no_edge_space_def)
  qed
qed

lemma trim_id: "no_edge_space s \<Longrightarrow> trim s = s"
proof (cases s)
  case Nil
  then show ?thesis by (simp add: trim_def)
next
  case (Cons c cs)
  assume "no_edge_space s"
  with Cons have h: "\<not> isWhiteSpace c" and l: "\<not> isWhiteSpace (last s)"
    by (simp_all add: no_edge_space_def)
  have ne: "s \<noteq> []" using Cons by simp
  then have "hd (rev s) = last s" by (simp add: hd_rev)
  with l have "dropWhile isWhiteSpace (rev s) = rev s"
    by (simp add: dropWhile_eq_self_iff)
  moreover have "dropWhile isWhiteSpace s = s"
    using h Cons by simp
  ultimately show ?thesis by (simp add: trim_def)
qed

lemma hd_lowerUnit: "\<not> isWhiteSpace c \<Longrightarrow> \<not> isWhiteSpace (hd (lowerUnit c))"
  by (auto simp: lowerUnit_def isWhiteSpace_def)

lemma last_lowerUnit: "\<not> isWhiteSpace c \<Longrightarrow> \<not> isWhiteSpace (last (lowerUnit c))"
  by (auto simp: lowerUnit_def isWhiteSpace_def)

lemma toLowerCase_no_edge_space: "no_edge_space s \<Longrightarrow> no_edge_space (toLowerCase s)"
proof (cases s)
  case Nil
  then show ?thesis by (simp add: no_edge_space_def)
next
  case (Cons c cs)
  assume n: "no_edge_space s"
  with Cons have h: "\<not> isWhiteSpace c" and l: "\<not> isWhiteSpace (last s)"
    by (simp_all add: no_edge_space_def)
  have "s \<noteq> []" using Cons by simp
  then have "toLowerCase s = toLowerCase (butlast s @ [last s])" by simp
  then have "toLowerCase s = toLowerCase (butlast s) @ lowerUnit (last s)"
    by (simp only: toLowerCase_append toLowerCase_single)
  then have L: "last (toLowerCase s) = last (lowerUnit (last s))" by simp
  have "hd (toLowerCase s) = hd (lowerUnit c)" using Cons by (simp add: toLowerCase_def)
  with L h l show ?thesis
    by (simp add: no_edge_space_def hd_lowerUnit last_lowerUnit)
qed

lemma replace_ws_Nil_iff [simp]: "replace_ws s = [] \<longleftrightarrow> s = []"
  by (cases s) simp_all

lemma last_replace_ws:
  "s \<noteq> [] \<Longrightarrow> \<not> isWhiteSpace (last s) \<Longrightarrow> last (replace_ws s) = last s"
proof (induction s rule: replace_ws.induct)
  case 1
  then show ?case by simp
next
  case (2 c cs)
  show ?case
  proof (cases "cs = []")
    case True
    with "2.prems" show ?thesis by simp
  next
    case False
    with "2.prems" have l: "\<not> isWhiteSpace (last cs)" by simp
    show ?thesis
    proof (cases "isWhiteSpace c")
      case True
      have ne: "dropWhile isWhiteSpace cs \<noteq> []"
        using False l by (metis dropWhile_eq_Nil_conv last_in_set)
      then have d: "last (dropWhile isWhiteSpace cs) = last cs" by (rule dropWhile_last_keep)
      have r: "last (replace_ws (dropWhile isWhiteSpace cs)) = last cs"
        using "2.IH"(1) [OF True ne] l d by simp
      have rne: "replace_ws (dropWhile isWhiteSpace cs) \<noteq> []"
        using ne by (simp only: replace_ws_Nil_iff not_False_eq_True)
      have "replace_ws (c # cs) = 32 # replace_ws (dropWhile isWhiteSpace cs)"
        using True by simp
      then have "last (replace_ws (c # cs)) = last (replace_ws (dropWhile isWhiteSpace cs))"
        using last_ConsR [OF rne] by simp
      also have "\<dots> = last cs" by (rule r)
      also have "\<dots> = last (c # cs)" using last_ConsR [OF False] by simp
      finally show ?thesis .
    next
      case nw: False
      with "2.IH"(2) [OF nw False l] False show ?thesis by simp
    qed
  qed
qed

lemma replace_ws_no_edge_space: "no_edge_space s \<Longrightarrow> no_edge_space (replace_ws s)"
proof (cases s)
  case Nil
  then show ?thesis by (simp add: no_edge_space_def)
next
  case (Cons c cs)
  assume "no_edge_space s"
  with Cons have h: "\<not> isWhiteSpace c" and l: "\<not> isWhiteSpace (last s)"
    by (simp_all add: no_edge_space_def)
  from l have "last (replace_ws s) = last s" using Cons by (intro last_replace_ws) simp_all
  with h l Cons show ?thesis by (simp add: no_edge_space_def)
qed

lemma normalizedCommand_eq:
  "normalizedCommand (toLowerCase (trim command)) = spec_normalized command"
  unfolding normalizedCommand_def spec_normalized_def
  by (intro trim_id replace_ws_no_edge_space toLowerCase_no_edge_space trim_no_edge_space)

lemma normalizedKey_eq:
  "(key, config) \<in> set DEMO_COMMANDS \<Longrightarrow> trim (replace_ws key) = key"
  by (auto simp: DEMO_COMMANDS_def js_def trim_def isWhiteSpace_def)

lemma keyMatches_eq:
  "(key, config) \<in> set DEMO_COMMANDS \<Longrightarrow> keyMatches n key = spec_triggered n key"
  by (simp add: keyMatches_def spec_triggered_def normalizedKey_eq)

text \<open>
  The second trim of the lookup changes nothing, and the keys of the table are in normal form,
  so the lookup is a search with the matching rule of the specification.
\<close>

lemma matched_find:
  "matchedCommand (toLowerCase (trim command)) =
     find (\<lambda>entry. spec_triggered (spec_normalized command) (fst entry)) DEMO_COMMANDS"
proof -
  have "find (\<lambda>(key, config). keyMatches (spec_normalized command) key) DEMO_COMMANDS =
        find (\<lambda>entry. spec_triggered (spec_normalized command) (fst entry)) DEMO_COMMANDS"
    by (rule find_cong) (auto simp: keyMatches_eq)
  then show ?thesis by (simp add: matchedCommand_def normalizedCommand_eq)
qed

lemma verbose_setup_normalized:
  "spec_normalized (js ''ui-kit setup --verbose'') = js ''ui-kit setup --verbose''"
  by (simp add: spec_normalized_def js_def trim_def toLowerCase_def lowerUnit_def isWhiteSpace_def)

section \<open>The command matcher\<close>

text \<open>
  Claim C1. For every input, the lookup of \<^verbatim>\<open>executeCommand\<close> returns an entry of the
  command table exactly when that entry is the first one, in declaration order, whose trigger
  the normalized input (trimmed, lower-cased, white space collapsed) equals or starts with,
  followed by a space; it returns nothing exactly when no trigger is matched in that way; and
  the input \<^verbatim>\<open>ui-kit setup --verbose\<close> selects the entry of \<^verbatim>\<open>ui-kit setup\<close>.
\<close>
theorem matcher_first_match:
  "(matchedCommand (toLowerCase (trim command)) = Some entry \<longleftrightarrow>
      (\<exists>i<length DEMO_COMMANDS.
          entry = DEMO_COMMANDS ! i \<and>
          spec_triggered (spec_normalized command) (fst (DEMO_COMMANDS ! i)) \<and>
          (\<forall>j<i. \<not> spec_triggered (spec_normalized command) (fst (DEMO_COMMANDS ! j))))) \<and>
   (matchedCommand (toLowerCase (trim command)) = None \<longleftrightarrow>
      (\<forall>entry\<in>set DEMO_COMMANDS. \<not> spec_triggered (spec_normalized command) (fst entry))) \<and>
   matchedCommand (toLowerCase (trim (js ''ui-kit setup --verbose''))) =
     Some (js ''ui-kit setup'', \<lparr>output' = ui_kit_setup_output, delay = 80\<rparr>)"
proof (intro conjI)
  show "matchedCommand (toLowerCase (trim command)) = Some entry \<longleftrightarrow>
      (\<exists>i<length DEMO_COMMANDS.
          entry = DEMO_COMMANDS ! i \<and>
          spec_triggered (spec_normalized command) (fst (DEMO_COMMANDS ! i)) \<and>
          (\<forall>j<i. \<not> spec_triggered (spec_normalized command) (fst (DEMO_COMMANDS ! j))))"
    unfolding matched_find find_Some_iff by blast
  show "matchedCommand (toLowerCase (trim command)) = None \<longleftrightarrow>
      (\<forall>entry\<in>set DEMO_COMMANDS. \<not> spec_triggered (spec_normalized command) (fst entry))"
    unfolding matched_find find_None_iff by blast
  show "matchedCommand (toLowerCase (trim (js ''ui-kit setup --verbose''))) =
     Some (js ''ui-kit setup'', \<lparr>output' = ui_kit_setup_output, delay = 80\<rparr>)"
    unfolding matched_find verbose_setup_normalized
    by (simp add: DEMO_COMMANDS_def spec_triggered_def startsWith_def js_def)
qed

text \<open>The theorem at an input with capitals and extra white space.\<close>

lemma shouting_setup_normalized:
  "spec_normalized (js ''  UI-Kit   SETUP --force '') = js ''ui-kit setup --force''"
  by (simp add: spec_normalized_def js_def trim_def toLowerCase_def lowerUnit_def isWhiteSpace_def)

theorem matcher_first_match_witness:
  "(1::nat) < length DEMO_COMMANDS \<and>
   spec_triggered (spec_normalized (js ''  UI-Kit   SETUP --force '')) (fst (DEMO_COMMANDS ! 1)) \<and>
   \<not> spec_triggered (spec_normalized (js ''  UI-Kit   SETUP --force ''))
      (fst (DEMO_COMMANDS ! 0)) \<and>
   matchedCommand (toLowerCase (trim (js ''  UI-Kit   SETUP --force ''))) = Some (DEMO_COMMANDS ! 1) \<and>
   fst (DEMO_COMMANDS ! 1) = js ''ui-kit setup''"
proof -
  have a: "(1::nat) < length DEMO_COMMANDS" by (simp add: DEMO_COMMANDS_def)
  have b: "spec_triggered (spec_normalized (js ''  UI-Kit   SETUP --force '')) (fst (DEMO_COMMANDS ! 1))"
    unfolding shouting_setup_normalized
    by (simp add: DEMO_COMMANDS_def spec_triggered_def startsWith_def js_def)
  have c: "\<not> spec_triggered (spec_normalized (js ''  UI-Kit   SETUP --force ''))
      (fst (DEMO_COMMANDS ! 0))"
    unfolding shouting_setup_normalized
    by (simp add: DEMO_COMMANDS_def spec_triggered_def startsWith_def js_def)
  then have c': "\<forall>j<1. \<not> spec_triggered (spec_normalized (js ''  UI-Kit   SETUP --force ''))
      (fst (DEMO_COMMANDS ! j))"
    by simp
  have d: "fst (DEMO_COMMANDS ! 1) = js ''ui-kit setup''" by (simp add: DEMO_COMMANDS_def)
  from a b c' have "matchedCommand (toLowerCase (trim (js ''  UI-Kit   SETUP --force ''))) =
      Some (DEMO_COMMANDS ! 1)"
    using matcher_first_match [of "js ''  UI-Kit   SETUP --force ''" "DEMO_COMMANDS ! 1"] by blast
  with a b c d show ?thesis by blast
qed

section \<open>The handlers, case by case\<close>

lemma toLowerCase_Nil [simp]: "toLowerCase [] = []"
  by (simp add: toLowerCase_def)

lemma js_space: "js '' '' = [32]"
  by (simp add: js_def)

lemma js_clear_not_Nil: "js ''clear'' \<noteq> []"
  by (simp add: js_def)

lemma ordinary_not_blank: "ordinary command \<Longrightarrow> trim command \<noteq> []"
  by (auto simp: ordinary_def)

lemma executeCommand_clear:
  "toLowerCase (trim command) = js ''clear'' \<Longrightarrow>
   executeCommand now command s =
     s\<lparr>lines := [\<lparr>type = Info, content = [0xD83E, 0xDD77] @ js '' Terminal cleared'',
                   timestamp = Some now\<rparr>]\<rparr>"
  by (simp add: executeCommand_def Let_def)

lemma executeCommand_blank: "trim command = [] \<Longrightarrow> executeCommand now command s = s"
  using js_clear_not_Nil by (simp add: executeCommand_def Let_def)

lemma executeCommand_ordinary:
  "ordinary command \<Longrightarrow>
   executeCommand now command s =
     s\<lparr>commandHistory := commandHistory s @ [command],
       historyIndex := - 1,
       lines := lines s @
         [\<lparr>type = Input, content = js ''$ shuriken '' @ command, timestamp = Some now\<rparr>],
       isProcessing := True,
       tasks := tasks s @ [Sleeping (matchedCommand (toLowerCase (trim command))) command]\<rparr>"
  by (simp add: executeCommand_def ordinary_def addLine_def Let_def)

lemma enter_processing: "isProcessing s \<Longrightarrow> handleKeyDown now Enter s = s"
  by (simp add: handleKeyDown_def split: option.splits)

lemma enter_blank:
  "currentInput s = Some input \<Longrightarrow> trim input = [] \<Longrightarrow> handleKeyDown now Enter s = s"
  by (simp add: handleKeyDown_def)

lemma enter_undefined: "currentInput s = None \<Longrightarrow> handleKeyDown now Enter s = s"
  by (simp add: handleKeyDown_def)

lemma enter_clear:
  "currentInput s = Some input \<Longrightarrow> \<not> isProcessing s \<Longrightarrow>
   toLowerCase (trim input) = js ''clear'' \<Longrightarrow>
   handleKeyDown now Enter s =
     s\<lparr>lines := [\<lparr>type = Info, content = [0xD83E, 0xDD77] @ js '' Terminal cleared'',
                   timestamp = Some now\<rparr>],
       currentInput := Some []\<rparr>"
proof -
  assume a: "currentInput s = Some input" "\<not> isProcessing s"
    and c: "toLowerCase (trim input) = js ''clear''"
  from c js_clear_not_Nil have "trim input \<noteq> []" by auto
  with a show ?thesis by (simp add: handleKeyDown_def executeCommand_clear [OF c])
qed

lemma enter_ordinary:
  "currentInput s = Some input \<Longrightarrow> \<not> isProcessing s \<Longrightarrow> ordinary input \<Longrightarrow>
   handleKeyDown now Enter s =
     s\<lparr>commandHistory := commandHistory s @ [input],
       historyIndex := - 1,
       lines := lines s @
         [\<lparr>type = Input, content = js ''$ shuriken '' @ input, timestamp = Some now\<rparr>],
       isProcessing := True,
       tasks := tasks s @ [Sleeping (matchedCommand (toLowerCase (trim input))) input],
       currentInput := Some []\<rparr>"
  by (simp add: handleKeyDown_def executeCommand_ordinary ordinary_not_blank)

lemma input_cases:
  "trim input = [] \<or> toLowerCase (trim input) = js ''clear'' \<or> ordinary input"
  by (auto simp: ordinary_def)

lemma arrowUp_empty:
  "commandHistory s = [] \<Longrightarrow> handleKeyDown now ArrowUp s = s"
  by (simp add: handleKeyDown_def)

lemma arrowUp_inactive:
  "commandHistory s \<noteq> [] \<Longrightarrow> historyIndex s = - 1 \<Longrightarrow>
   handleKeyDown now ArrowUp s =
     s\<lparr>historyIndex := int (length (commandHistory s)) - 1,
       currentInput := Some (last (commandHistory s))\<rparr>"
proof -
  assume ne: "commandHistory s \<noteq> []" and i: "historyIndex s = - 1"
  have "nat (int (length (commandHistory s)) - 1) = length (commandHistory s) - 1"
    by simp
  then have "commandHistory s ! nat (int (length (commandHistory s)) - 1) = last (commandHistory s)"
    using ne by (simp add: last_conv_nth)
  with ne i show ?thesis
    by (simp add: handleKeyDown_def at_index_def Let_def)
qed

lemma arrowUp_active:
  "0 \<le> historyIndex s \<Longrightarrow> historyIndex s < int (length (commandHistory s)) \<Longrightarrow>
   handleKeyDown now ArrowUp s =
     s\<lparr>historyIndex := max 0 (historyIndex s - 1),
       currentInput := Some (commandHistory s ! nat (max 0 (historyIndex s - 1)))\<rparr>"
  by (auto simp: handleKeyDown_def at_index_def Let_def)

lemma arrowDown_inactive:
  "historyIndex s \<le> - 1 \<Longrightarrow> handleKeyDown now ArrowDown s = s"
  by (simp add: handleKeyDown_def)

lemma arrowDown_inner:
  "0 \<le> historyIndex s \<Longrightarrow> historyIndex s + 1 < int (length (commandHistory s)) \<Longrightarrow>
   handleKeyDown now ArrowDown s =
     s\<lparr>historyIndex := historyIndex s + 1,
       currentInput := Some (commandHistory s ! nat (historyIndex s + 1))\<rparr>"
  by (simp add: handleKeyDown_def at_index_def Let_def)

lemma arrowDown_newest:
  "0 \<le> historyIndex s \<Longrightarrow> int (length (commandHistory s)) \<le> historyIndex s + 1 \<Longrightarrow>
   handleKeyDown now ArrowDown s = s\<lparr>historyIndex := - 1, currentInput := Some []\<rparr>"
  by (simp add: handleKeyDown_def Let_def)

section \<open>Timers\<close>

lemma split_from_not_Nil [simp]: "split_from tok s \<noteq> []"
  by (induction s arbitrary: tok) auto

lemma split_space_not_Nil [simp]: "split_space text \<noteq> []"
  by (simp add: split_space_def)

lemma setLastOutput_snoc:
  "type l = Output \<Longrightarrow>
   setLastOutput currentText ts (ls @ [l]) =
     ls @ [\<lparr>type = Output, content = currentText, timestamp = Some ts\<rparr>]"
  by (simp add: setLastOutput_def)

lemma wake_out_of_range: "length (tasks s) \<le> k \<Longrightarrow> wake now k s = s"
  by (simp add: wake_def)

lemma wake_unmatched:
  "tasks s = [Sleeping None command] \<Longrightarrow>
   wake now 0 s =
     s\<lparr>lines := lines s @
         [\<lparr>type = Error,
           content = [0x274C] @ js '' Command not found: '' @ command @ [10] @
             js ''Type '' @ [39] @ js ''help'' @ [39] @ js '' to see available commands.'',
           timestamp = Some now\<rparr>],
       isProcessing := False,
       tasks := []\<rparr>"
  by (simp add: wake_def resume_def addLine_def)

lemma wake_matched:
  "tasks s = [Sleeping (Some (key, config)) command] \<Longrightarrow>
   wake now 0 s =
     s\<lparr>lines := lines s @
         [\<lparr>type = Output, content = revealed (split_space (output' config)) 1,
           timestamp = Some now\<rparr>],
       tasks := [Typing (split_space (output' config)) 1
                  (revealed (split_space (output' config)) 1) now (delay config)]\<rparr>"
  by (simp add: wake_def resume_def typewriterEffect_def typewriterLoop_def Let_def
      setLastOutput_snoc)

lemma wake_typing_more:
  "tasks s = [Typing words i currentText ts dl] \<Longrightarrow> i < length words \<Longrightarrow>
   wake now 0 s =
     s\<lparr>lines :=
         setLastOutput (currentText @ (if 0 < i then js '' '' else []) @ words ! i) ts (lines s),
       tasks := [Typing words (Suc i)
                  (currentText @ (if 0 < i then js '' '' else []) @ words ! i) ts dl]\<rparr>"
  by (simp add: wake_def typewriterLoop_def Let_def)

lemma wake_typing_done:
  "tasks s = [Typing words i currentText ts dl] \<Longrightarrow> length words \<le> i \<Longrightarrow>
   wake now 0 s = s\<lparr>isProcessing := False, tasks := []\<rparr>"
  by (simp add: wake_def typewriterLoop_def)

section \<open>What holds in every reachable state\<close>

lemma otherKey: "handleKeyDown now OtherKey s = s"
  by (simp add: handleKeyDown_def)

lemma well_formed_initial: "well_formed (initial now)"
  by (simp add: well_formed_def one_in_flight_def cursor_valid_def reveal_line_def initial_def)

lemma well_formed_input:
  "well_formed s \<Longrightarrow> well_formed (s\<lparr>currentInput := v\<rparr>)"
  by (simp add: well_formed_def one_in_flight_def cursor_valid_def reveal_line_def)

lemma idle_no_tasks: "well_formed s \<Longrightarrow> \<not> isProcessing s \<Longrightarrow> tasks s = []"
  by (simp add: well_formed_def one_in_flight_def)

lemma well_formed_enter:
  assumes "well_formed s"
  shows "well_formed (handleKeyDown now Enter s)"
proof (cases "isProcessing s")
  case True
  with assms show ?thesis by (simp add: enter_processing)
next
  case False
  with assms have t: "tasks s = []" by (rule idle_no_tasks)
  show ?thesis
  proof (cases "currentInput s")
    case None
    with assms show ?thesis by (simp add: enter_undefined)
  next
    case (Some input)
    from input_cases [of input] show ?thesis
    proof (elim disjE)
      assume "trim input = []"
      with assms Some show ?thesis by (simp add: enter_blank)
    next
      assume "toLowerCase (trim input) = js ''clear''"
      with assms Some False t show ?thesis
        by (simp add: enter_clear well_formed_def one_in_flight_def cursor_valid_def
            reveal_line_def)
    next
      assume "ordinary input"
      with assms Some False t show ?thesis
        by (simp add: enter_ordinary well_formed_def one_in_flight_def cursor_valid_def
            reveal_line_def)
    qed
  qed
qed

lemma well_formed_arrowUp:
  assumes "well_formed s"
  shows "well_formed (handleKeyDown now ArrowUp s)"
proof (cases "commandHistory s = []")
  case True
  with assms show ?thesis by (simp add: arrowUp_empty)
next
  case False
  from assms have "cursor_valid s" by (simp add: well_formed_def)
  then show ?thesis
    unfolding cursor_valid_def
  proof (elim disjE conjE)
    assume "historyIndex s = - 1"
    with assms False show ?thesis
      by (simp add: arrowUp_inactive well_formed_def one_in_flight_def cursor_valid_def
          reveal_line_def)
  next
    assume "0 \<le> historyIndex s" "historyIndex s < int (length (commandHistory s))"
    with assms False show ?thesis
      by (simp add: arrowUp_active well_formed_def one_in_flight_def cursor_valid_def
          reveal_line_def)
  qed
qed

lemma well_formed_arrowDown:
  assumes "well_formed s"
  shows "well_formed (handleKeyDown now ArrowDown s)"
proof -
  consider "historyIndex s \<le> - 1"
    | "0 \<le> historyIndex s" "historyIndex s + 1 < int (length (commandHistory s))"
    | "0 \<le> historyIndex s" "int (length (commandHistory s)) \<le> historyIndex s + 1"
    by linarith
  then show ?thesis
  proof cases
    case 1
    with assms show ?thesis by (simp add: arrowDown_inactive)
  next
    case 2
    with assms show ?thesis
      by (simp add: arrowDown_inner well_formed_def one_in_flight_def cursor_valid_def
          reveal_line_def)
  next
    case 3
    with assms show ?thesis
      by (simp add: arrowDown_newest well_formed_def one_in_flight_def cursor_valid_def
          reveal_line_def)
  qed
qed

lemma well_formed_wake:
  assumes "well_formed s"
  shows "well_formed (wake now k s)"
proof (cases "tasks s")
  case Nil
  with assms show ?thesis by (simp add: wake_out_of_range)
next
  case (Cons t ts)
  with assms have ts: "ts = []" by (simp add: well_formed_def one_in_flight_def)
  show ?thesis
  proof (cases k)
    case (Suc m)
    with Cons ts assms show ?thesis by (simp add: wake_out_of_range)
  next
    case 0
    show ?thesis
    proof (cases t)
      case (Sleeping matched command)
      show ?thesis
      proof (cases matched)
        case None
        with Sleeping Cons ts have "tasks s = [Sleeping None command]" by simp
        with assms 0 show ?thesis
          by (simp add: wake_unmatched well_formed_def one_in_flight_def cursor_valid_def
              reveal_line_def)
      next
        case (Some entry)
        obtain key config where "entry = (key, config)" by (cases entry)
        with Some Sleeping Cons ts
        have "tasks s = [Sleeping (Some (key, config)) command]" by simp
        with assms 0 show ?thesis
          by (simp add: wake_matched well_formed_def one_in_flight_def cursor_valid_def
              reveal_line_def)
      qed
    next
      case (Typing words i currentText tstamp dl)
      with Cons ts have t: "tasks s = [Typing words i currentText tstamp dl]" by simp
      show ?thesis
      proof (cases "i < length words")
        case True
        from assms t have "lines s \<noteq> []"
          and "last (lines s) = \<lparr>type = Output, content = currentText, timestamp = Some tstamp\<rparr>"
          by (simp_all add: well_formed_def reveal_line_def)
        then have "lines s = butlast (lines s) @
            [\<lparr>type = Output, content = currentText, timestamp = Some tstamp\<rparr>]"
          by (metis append_butlast_last_id)
        then have "setLastOutput c tstamp (lines s) =
            butlast (lines s) @ [\<lparr>type = Output, content = c, timestamp = Some tstamp\<rparr>]" for c
          by (metis setLastOutput_snoc TerminalLine.select_convs(1))
        with assms t True 0 show ?thesis
          by (simp add: wake_typing_more well_formed_def one_in_flight_def cursor_valid_def
              reveal_line_def)
      next
        case False
        with assms t 0 show ?thesis
          by (simp add: wake_typing_done well_formed_def one_in_flight_def cursor_valid_def
              reveal_line_def)
      qed
    qed
  qed
qed

lemma well_formed_step: "well_formed s \<Longrightarrow> well_formed (step now e s)"
proof (cases e)
  case (KeyDown k)
  assume "well_formed s"
  with KeyDown show ?thesis
    by (cases k)
      (simp_all add: well_formed_enter well_formed_arrowUp well_formed_arrowDown otherKey)
next
  case (Change v)
  assume "well_formed s"
  with Change show ?thesis by (simp add: well_formed_input)
next
  case (SuggestionClick suggestion)
  assume "well_formed s"
  with SuggestionClick show ?thesis by (simp add: handleSuggestionClick_def well_formed_input)
next
  case (Timer k)
  assume "well_formed s"
  with Timer show ?thesis by (simp add: well_formed_wake)
qed

lemma reachable_well_formed: "reachable s \<Longrightarrow> well_formed s"
  by (induction rule: reachable.induct) (simp_all add: well_formed_initial well_formed_step)

section \<open>The reveal\<close>

lemma revealed_append: "n \<le> length ws \<Longrightarrow> revealed (ws @ vs) n = revealed ws n"
  by (induction n) (simp_all add: nth_append)

lemma join_space_snoc:
  "join_space (ws @ [w]) = (if ws = [] then w else join_space ws @ 32 # w)"
  by (cases ws) (simp_all add: join_space_def)

lemma join_space_Nil: "join_space [] = []"
  by (simp add: join_space_def)

lemma revealed_all: "revealed ws (length ws) = join_space ws"
proof (induction ws rule: rev_induct)
  case Nil
  show ?case by (simp add: join_space_def)
next
  case (snoc w ws)
  have "revealed (ws @ [w]) (length ws) = join_space ws"
    using snoc.IH by (simp add: revealed_append)
  then show ?case by (simp add: join_space_snoc js_space join_space_Nil)
qed

lemma join_space_Cons: "ws \<noteq> [] \<Longrightarrow> join_space (w # ws) = w @ 32 # join_space ws"
  by (cases ws) (simp_all add: join_space_def)

lemma join_split_from: "join_space (split_from tok s) = tok @ s"
proof (induction s arbitrary: tok)
  case Nil
  show ?case by (simp add: join_space_def)
next
  case (Cons c cs)
  show ?case
  proof (cases "c = 32")
    case True
    then have "join_space (split_from tok (c # cs)) = tok @ 32 # join_space (split_from [] cs)"
      by (simp add: join_space_Cons)
    with True Cons.IH [of "[]"] show ?thesis by simp
  next
    case False
    with Cons.IH [of "tok @ [c]"] show ?thesis by simp
  qed
qed

lemma revealed_split_space:
  "revealed (split_space text) (length (split_space text)) = text"
  by (simp add: revealed_all split_space_def join_split_from)

lemma join_split_space: "join_space (split_space text) = text"
  by (simp add: split_space_def join_split_from)

lemma split_from_no_space:
  "32 \<notin> set tok \<Longrightarrow> w \<in> set (split_from tok s) \<Longrightarrow> 32 \<notin> set w"
proof (induction s arbitrary: tok)
  case Nil
  then show ?case by simp
next
  case (Cons c cs)
  show ?case
  proof (cases "c = 32")
    case True
    with Cons.prems have "w = tok \<or> w \<in> set (split_from [] cs)" by simp
    then show ?thesis
    proof
      assume "w = tok"
      with Cons.prems(1) show ?thesis by simp
    next
      assume "w \<in> set (split_from [] cs)"
      with Cons.IH [of "[]"] show ?thesis by simp
    qed
  next
    case False
    with Cons.prems have "32 \<notin> set (tok @ [c])" and "w \<in> set (split_from (tok @ [c]) cs)"
      by simp_all
    then show ?thesis by (rule Cons.IH)
  qed
qed

lemma split_space_no_space: "w \<in> set (split_space text) \<Longrightarrow> 32 \<notin> set w"
  unfolding split_space_def by (rule split_from_no_space) simp_all

lemma length_split_from: "length (split_from tok s) = Suc (count_list s 32)"
  by (induction s arbitrary: tok) simp_all

lemma length_split_space: "length (split_space text) = Suc (count_list text 32)"
  by (simp add: split_space_def length_split_from)

lemma revealed_take: "n \<le> length ws \<Longrightarrow> revealed ws n = join_space (take n ws)"
proof (induction n)
  case 0
  show ?case by (simp add: join_space_Nil)
next
  case (Suc n)
  then have n: "n < length ws" by simp
  then have "take (Suc n) ws = take n ws @ [ws ! n]" by (rule take_Suc_conv_app_nth)
  moreover have "revealed ws n = join_space (take n ws)" using Suc by simp
  moreover have "take n ws = [] \<longleftrightarrow> n = 0" using n by (cases ws) auto
  ultimately show ?case by (simp add: join_space_snoc js_space join_space_Nil)
qed

lemma wakes_last: "wakes (Suc n) clock s = step (clock n) (Timer 0) (wakes n clock s)"
proof (induction n arbitrary: clock s)
  case 0
  show ?case by simp
next
  case (Suc n)
  have "wakes (Suc (Suc n)) clock s =
      wakes (Suc n) (\<lambda>m. clock (Suc m)) (step (clock 0) (Timer 0) s)"
    by simp
  also have "\<dots> = step (clock (Suc n)) (Timer 0)
      (wakes n (\<lambda>m. clock (Suc m)) (step (clock 0) (Timer 0) s))"
    by (rule Suc.IH)
  finally show ?case by simp
qed

lemma wakes_typing:
  "tasks s = [Typing words i (revealed words i) ts dl] \<Longrightarrow>
   lines s = ls @ [\<lparr>type = Output, content = revealed words i, timestamp = Some ts\<rparr>] \<Longrightarrow>
   i + n \<le> length words \<Longrightarrow>
   wakes n clock s =
     s\<lparr>lines := ls @ [\<lparr>type = Output, content = revealed words (i + n), timestamp = Some ts\<rparr>],
       tasks := [Typing words (i + n) (revealed words (i + n)) ts dl]\<rparr>"
proof (induction n arbitrary: s i clock)
  case 0
  then show ?case by simp
next
  case (Suc n)
  let ?s1 = "wake (clock 0) 0 s"
  from Suc.prems have i: "i < length words" by simp
  have s1: "?s1 =
      s\<lparr>lines := ls @
          [\<lparr>type = Output, content = revealed words (Suc i), timestamp = Some ts\<rparr>],
        tasks := [Typing words (Suc i) (revealed words (Suc i)) ts dl]\<rparr>"
    using Suc.prems(1,2) i by (simp add: wake_typing_more setLastOutput_snoc)
  have "wakes n (\<lambda>m. clock (Suc m)) ?s1 =
      ?s1\<lparr>lines := ls @
          [\<lparr>type = Output, content = revealed words (Suc i + n), timestamp = Some ts\<rparr>],
        tasks := [Typing words (Suc i + n) (revealed words (Suc i + n)) ts dl]\<rparr>"
    using Suc.prems(3) by (intro Suc.IH) (simp_all add: s1)
  then show ?case by (simp add: s1)
qed

lemma wakes_matched:
  assumes t: "tasks s = [Sleeping (Some (key, config)) command]"
    and n: "n < length (split_space (output' config))"
  shows "wakes (Suc n) clock s =
     s\<lparr>lines := lines s @
         [\<lparr>type = Output, content = revealed (split_space (output' config)) (Suc n),
           timestamp = Some (clock 0)\<rparr>],
       tasks := [Typing (split_space (output' config)) (Suc n)
                  (revealed (split_space (output' config)) (Suc n)) (clock 0) (delay config)]\<rparr>"
proof -
  let ?words = "split_space (output' config)"
  let ?s1 = "wake (clock 0) 0 s"
  have s1: "?s1 =
      s\<lparr>lines := lines s @
          [\<lparr>type = Output, content = revealed ?words 1, timestamp = Some (clock 0)\<rparr>],
        tasks := [Typing ?words 1 (revealed ?words 1) (clock 0) (delay config)]\<rparr>"
    using t by (rule wake_matched)
  have "wakes n (\<lambda>m. clock (Suc m)) ?s1 =
      ?s1\<lparr>lines := lines s @
          [\<lparr>type = Output, content = revealed ?words (1 + n), timestamp = Some (clock 0)\<rparr>],
        tasks := [Typing ?words (1 + n) (revealed ?words (1 + n)) (clock 0) (delay config)]\<rparr>"
    using n by (intro wakes_typing) (simp_all add: s1)
  then show ?thesis by (simp add: s1)
qed

lemma await_idle: "tasks s = [] \<Longrightarrow> await clock s = s"
  by (simp add: await_def)

lemma await_unmatched:
  "tasks s = [Sleeping None command] \<Longrightarrow>
   await clock s =
     s\<lparr>lines := lines s @
         [\<lparr>type = Error,
           content = [0x274C] @ js '' Command not found: '' @ command @ [10] @
             js ''Type '' @ [39] @ js ''help'' @ [39] @ js '' to see available commands.'',
           timestamp = Some (clock 0)\<rparr>],
       isProcessing := False,
       tasks := []\<rparr>"
  by (simp add: await_def wake_unmatched)

lemma await_matched:
  assumes t: "tasks s = [Sleeping (Some (key, config)) command]"
  shows "await clock s =
     s\<lparr>lines := lines s @
         [\<lparr>type = Output, content = output' config, timestamp = Some (clock 0)\<rparr>],
       isProcessing := False,
       tasks := []\<rparr>"
proof -
  let ?words = "split_space (output' config)"
  obtain n where n: "length ?words = Suc n"
    using split_space_not_Nil [of "output' config"] by (cases ?words) auto
  have "await clock s = wakes (Suc (Suc n)) clock s"
    using t n by (simp add: await_def)
  also have "\<dots> = step (clock (Suc n)) (Timer 0) (wakes (Suc n) clock s)"
    by (rule wakes_last)
  finally have a: "await clock s = wake (clock (Suc n)) 0 (wakes (Suc n) clock s)"
    by simp
  have w: "wakes (Suc n) clock s =
     s\<lparr>lines := lines s @
         [\<lparr>type = Output, content = revealed ?words (Suc n), timestamp = Some (clock 0)\<rparr>],
       tasks := [Typing ?words (Suc n) (revealed ?words (Suc n)) (clock 0) (delay config)]\<rparr>"
    using t n by (intro wakes_matched) simp_all
  have "revealed ?words (Suc n) = output' config"
    using revealed_split_space [of "output' config"] n by simp
  with a w n show ?thesis by (simp add: wake_typing_done)
qed

section \<open>Submissions\<close>

lemma matched_ordinary:
  assumes "matchedCommand (toLowerCase (trim input)) = Some entry"
  shows "ordinary input"
proof -
  have "matchedCommand (js ''clear'') = None"
    by (simp add: matchedCommand_def normalizedCommand_def keyMatches_def DEMO_COMMANDS_def
        js_def trim_def isWhiteSpace_def startsWith_def)
  moreover have "matchedCommand [] = None"
    by (simp add: matchedCommand_def normalizedCommand_def keyMatches_def DEMO_COMMANDS_def
        js_def trim_def isWhiteSpace_def startsWith_def)
  ultimately show ?thesis using assms by (auto simp: ordinary_def)
qed

lemma submitted_matched:
  assumes "reachable s" "\<not> isProcessing s" "currentInput s = Some input"
    and m: "matchedCommand (toLowerCase (trim input)) = Some (key, config)"
  shows "step now (KeyDown Enter) s =
      s\<lparr>commandHistory := commandHistory s @ [input],
        historyIndex := - 1,
        lines := lines s @
          [\<lparr>type = Input, content = js ''$ shuriken '' @ input, timestamp = Some now\<rparr>],
        isProcessing := True,
        tasks := [Sleeping (Some (key, config)) input],
        currentInput := Some []\<rparr>"
proof -
  from assms(1,2) have "tasks s = []"
    by (intro idle_no_tasks reachable_well_formed)
  moreover from m have "ordinary input" by (rule matched_ordinary)
  ultimately show ?thesis using assms by (simp add: enter_ordinary)
qed

lemma submitted_unmatched:
  assumes "reachable s" "\<not> isProcessing s" "currentInput s = Some input" "ordinary input"
    and m: "matchedCommand (toLowerCase (trim input)) = None"
  shows "step now (KeyDown Enter) s =
      s\<lparr>commandHistory := commandHistory s @ [input],
        historyIndex := - 1,
        lines := lines s @
          [\<lparr>type = Input, content = js ''$ shuriken '' @ input, timestamp = Some now\<rparr>],
        isProcessing := True,
        tasks := [Sleeping None input],
        currentInput := Some []\<rparr>"
proof -
  from assms(1,2) have "tasks s = []"
    by (intro idle_no_tasks reachable_well_formed)
  then show ?thesis using assms by (simp add: enter_ordinary)
qed

lemma answered_matched:
  assumes "reachable s" "\<not> isProcessing s" "currentInput s = Some input"
    and m: "matchedCommand (toLowerCase (trim input)) = Some (key, config)"
  shows "await clock (step now (KeyDown Enter) s) =
      s\<lparr>commandHistory := commandHistory s @ [input],
        historyIndex := - 1,
        lines := lines s @
          [\<lparr>type = Input, content = js ''$ shuriken '' @ input, timestamp = Some now\<rparr>,
           \<lparr>type = Output, content = output' config, timestamp = Some (clock 0)\<rparr>],
        currentInput := Some []\<rparr>"
proof -
  let ?s1 = "step now (KeyDown Enter) s"
  note s1 = submitted_matched [OF assms, of now]
  have "tasks ?s1 = [Sleeping (Some (key, config)) input]" unfolding s1 by simp
  then have "await clock ?s1 =
      ?s1\<lparr>lines := lines ?s1 @
          [\<lparr>type = Output, content = output' config, timestamp = Some (clock 0)\<rparr>],
        isProcessing := False, tasks := []\<rparr>"
    by (rule await_matched)
  moreover from assms(1,2) have "tasks s = []"
    by (intro idle_no_tasks reachable_well_formed)
  ultimately show ?thesis using assms(2) unfolding s1 by simp
qed

lemma revealing_matched:
  assumes "reachable s" "\<not> isProcessing s" "currentInput s = Some input"
    and m: "matchedCommand (toLowerCase (trim input)) = Some (key, config)"
    and n: "n < length (split_space (output' config))"
  shows "lines (wakes (Suc n) clock (step now (KeyDown Enter) s)) =
      lines s @
        [\<lparr>type = Input, content = js ''$ shuriken '' @ input, timestamp = Some now\<rparr>,
         \<lparr>type = Output, content = revealed (split_space (output' config)) (Suc n),
           timestamp = Some (clock 0)\<rparr>]"
proof -
  let ?s1 = "step now (KeyDown Enter) s"
  note s1 = submitted_matched [OF assms(1-4), of now]
  have "tasks ?s1 = [Sleeping (Some (key, config)) input]" unfolding s1 by simp
  from wakes_matched [OF this n, of clock] show ?thesis unfolding s1 by simp
qed

lemma answered_unmatched:
  assumes "reachable s" "\<not> isProcessing s" "currentInput s = Some input" "ordinary input"
    and m: "matchedCommand (toLowerCase (trim input)) = None"
  shows "await clock (step now (KeyDown Enter) s) =
      s\<lparr>commandHistory := commandHistory s @ [input],
        historyIndex := - 1,
        lines := lines s @
          [\<lparr>type = Input, content = js ''$ shuriken '' @ input, timestamp = Some now\<rparr>,
           \<lparr>type = Error,
             content = [0x274C] @ js '' Command not found: '' @ input @ [10] @
               js ''Type '' @ [39] @ js ''help'' @ [39] @ js '' to see available commands.'',
             timestamp = Some (clock 0)\<rparr>],
        currentInput := Some []\<rparr>"
proof -
  let ?s1 = "step now (KeyDown Enter) s"
  note s1 = submitted_unmatched [OF assms, of now]
  have "tasks ?s1 = [Sleeping None input]" unfolding s1 by simp
  then have "await clock ?s1 =
      ?s1\<lparr>lines := lines ?s1 @
          [\<lparr>type = Error,
             content = [0x274C] @ js '' Command not found: '' @ input @ [10] @
               js ''Type '' @ [39] @ js ''help'' @ [39] @ js '' to see available commands.'',
             timestamp = Some (clock 0)\<rparr>],
        isProcessing := False, tasks := []\<rparr>"
    by (rule await_unmatched)
  moreover from assms(1,2) have "tasks s = []"
    by (intro idle_no_tasks reachable_well_formed)
  ultimately show ?thesis using assms(2) unfolding s1 by simp
qed

lemma reachable_wake: "reachable s \<Longrightarrow> reachable (wake now k s)"
  using reachable_step [of s now "Timer k"] by simp

lemma reachable_wakes: "reachable s \<Longrightarrow> reachable (wakes n clock s)"
  by (induction n arbitrary: s clock) (simp_all add: reachable_wake)

lemma reachable_await: "reachable s \<Longrightarrow> reachable (await clock s)"
  by (simp add: await_def reachable_wakes split: list.splits)

lemma reachable_submit: "reachable s \<Longrightarrow> reachable (submit now clock command s)"
  unfolding submit_def by (intro reachable_await reachable_step)

lemma help_matched:
  "matchedCommand (toLowerCase (trim (js ''help''))) =
     Some (js ''help'', \<lparr>output' = help_output, delay = 50\<rparr>)"
  by (simp add: matchedCommand_def normalizedCommand_def keyMatches_def DEMO_COMMANDS_def
      js_def trim_def toLowerCase_def lowerUnit_def isWhiteSpace_def startsWith_def)

lemma lines_initial:
  "lines (initial now) =
    [\<lparr>type = Info,
      content = [0xD83E, 0xDD77] @ js '' Welcome to Shuriken CLI Interactive Demo'',
      timestamp = Some now\<rparr>,
     \<lparr>type = Info,
      content = js ''Type '' @ [34] @ js ''help'' @ [34] @
        js '' to see available commands, or try the suggestions below.'',
      timestamp = Some now\<rparr>]"
  by (simp add: initial_def)

lemma idle_initial: "\<not> isProcessing (initial now)"
  by (simp add: initial_def)

section \<open>The reveal of a matched command\<close>

text \<open>
  Claim C2. The text of an entry is split at its single spaces: the tokens contain no space,
  there is one more token than the text has spaces, and the tokens joined by single spaces
  are the text. When a submitted input matches the entry, the reveal shows, after the pause
  and \<open>n\<close> further timer expirations, an output line holding the first \<open>n + 1\<close> tokens with
  one space between neighbours, each step adding one token to the text of the step before;
  once the call has run to its end the transcript has gained the echoed input and one output
  line whose text is exactly the entry's text; and submitting \<^verbatim>\<open>help\<close> in a fresh widget ends
  with the help text in that line.
\<close>

theorem reveal_completes_with_full_text:
  assumes "reachable s" and "\<not> isProcessing s" and "currentInput s = Some input"
    and "matchedCommand (toLowerCase (trim input)) = Some (key, config)"
  shows
    "(\<forall>w\<in>set (split_space (output' config)). 32 \<notin> set w) \<and>
     length (split_space (output' config)) = Suc (count_list (output' config) 32) \<and>
     join_space (split_space (output' config)) = output' config \<and>
     (\<forall>n<length (split_space (output' config)).
        revealed (split_space (output' config)) (Suc n) =
          revealed (split_space (output' config)) n @ (if 0 < n then [32] else []) @
            split_space (output' config) ! n \<and>
        revealed (split_space (output' config)) (Suc n) =
          join_space (take (Suc n) (split_space (output' config)))) \<and>
     (\<forall>n<length (split_space (output' config)).
        lines (wakes (Suc n) clock (step now (KeyDown Enter) s)) =
          lines s @
            [\<lparr>type = Input, content = js ''$ shuriken '' @ input, timestamp = Some now\<rparr>,
             \<lparr>type = Output, content = revealed (split_space (output' config)) (Suc n),
               timestamp = Some (clock 0)\<rparr>]) \<and>
     revealed (split_space (output' config)) (length (split_space (output' config))) =
       output' config \<and>
     await clock (step now (KeyDown Enter) s) =
       s\<lparr>commandHistory := commandHistory s @ [input],
         historyIndex := - 1,
         lines := lines s @
           [\<lparr>type = Input, content = js ''$ shuriken '' @ input, timestamp = Some now\<rparr>,
            \<lparr>type = Output, content = output' config, timestamp = Some (clock 0)\<rparr>],
         currentInput := Some []\<rparr> \<and>
     lines (await clock (step now (KeyDown Enter) (step now (Change (js ''help'')) (initial now)))) =
       lines (initial now) @
         [\<lparr>type = Input, content = js ''$ shuriken '' @ js ''help'', timestamp = Some now\<rparr>,
          \<lparr>type = Output, content = help_output, timestamp = Some (clock 0)\<rparr>]"
proof (intro conjI allI impI ballI)
  fix w
  assume "w \<in> set (split_space (output' config))"
  then show "32 \<notin> set w" by (rule split_space_no_space)
next
  show "length (split_space (output' config)) = Suc (count_list (output' config) 32)"
    by (rule length_split_space)
next
  show "join_space (split_space (output' config)) = output' config"
    by (rule join_split_space)
next
  fix n
  show "revealed (split_space (output' config)) (Suc n) =
      revealed (split_space (output' config)) n @ (if 0 < n then [32] else []) @
        split_space (output' config) ! n"
    by (simp add: js_space)
next
  fix n
  assume "n < length (split_space (output' config))"
  then show "revealed (split_space (output' config)) (Suc n) =
      join_space (take (Suc n) (split_space (output' config)))"
    by (intro revealed_take) simp
next
  fix n
  assume "n < length (split_space (output' config))"
  with assms show "lines (wakes (Suc n) clock (step now (KeyDown Enter) s)) =
      lines s @
        [\<lparr>type = Input, content = js ''$ shuriken '' @ input, timestamp = Some now\<rparr>,
         \<lparr>type = Output, content = revealed (split_space (output' config)) (Suc n),
           timestamp = Some (clock 0)\<rparr>]"
    by (rule revealing_matched)
next
  show "revealed (split_space (output' config)) (length (split_space (output' config))) =
      output' config"
    by (rule revealed_split_space)
next
  from assms show "await clock (step now (KeyDown Enter) s) =
      s\<lparr>commandHistory := commandHistory s @ [input],
        historyIndex := - 1,
        lines := lines s @
          [\<lparr>type = Input, content = js ''$ shuriken '' @ input, timestamp = Some now\<rparr>,
           \<lparr>type = Output, content = output' config, timestamp = Some (clock 0)\<rparr>],
        currentInput := Some []\<rparr>"
    by (rule answered_matched)
next
  let ?s = "step now (Change (js ''help'')) (initial now)"
  have "reachable ?s" by (intro reachable.intros)
  moreover have "\<not> isProcessing ?s" by (simp add: idle_initial)
  moreover have "currentInput ?s = Some (js ''help'')" by simp
  ultimately have "await clock (step now (KeyDown Enter) ?s) =
      ?s\<lparr>commandHistory := commandHistory ?s @ [js ''help''],
        historyIndex := - 1,
        lines := lines ?s @
          [\<lparr>type = Input, content = js ''$ shuriken '' @ js ''help'', timestamp = Some now\<rparr>,
           \<lparr>type = Output, content = output' \<lparr>output' = help_output, delay = 50\<rparr>,
             timestamp = Some (clock 0)\<rparr>],
        currentInput := Some []\<rparr>"
    using help_matched by (rule answered_matched)
  then show "lines (await clock (step now (KeyDown Enter) ?s)) =
      lines (initial now) @
        [\<lparr>type = Input, content = js ''$ shuriken '' @ js ''help'', timestamp = Some now\<rparr>,
         \<lparr>type = Output, content = help_output, timestamp = Some (clock 0)\<rparr>]"
    by simp
qed

text \<open>The theorem at \<^verbatim>\<open>Version\<close>, typed into a fresh widget.\<close>

lemma version_words:
  "split_space version_output =
     [[0xD83E, 0xDD77], js ''Shuriken'', js ''CLI'', js ''v2.1.0'' @ [10] @ js ''Built'',
      js ''with'', [0x2764, 0xFE0F], js ''for'', js ''ninja'', js ''developers'']"
  by (simp add: split_space_def version_output_def js_def)

lemma version_matched:
  "matchedCommand (toLowerCase (trim (js ''Version''))) =
     Some (js ''version'', \<lparr>output' = version_output, delay = 30\<rparr>)"
  by (simp add: matchedCommand_def normalizedCommand_def keyMatches_def DEMO_COMMANDS_def
      js_def trim_def toLowerCase_def lowerUnit_def isWhiteSpace_def startsWith_def)

theorem reveal_completes_with_full_text_witness:
  "reachable (step [] (Change (js ''Version'')) (initial [])) \<and>
   \<not> isProcessing (step [] (Change (js ''Version'')) (initial [])) \<and>
   currentInput (step [] (Change (js ''Version'')) (initial [])) = Some (js ''Version'') \<and>
   matchedCommand (toLowerCase (trim (js ''Version''))) =
     Some (js ''version'', \<lparr>output' = version_output, delay = 30\<rparr>) \<and>
   split_space version_output =
     [[0xD83E, 0xDD77], js ''Shuriken'', js ''CLI'', js ''v2.1.0'' @ [10] @ js ''Built'',
      js ''with'', [0x2764, 0xFE0F], js ''for'', js ''ninja'', js ''developers''] \<and>
   lines (wakes (Suc (Suc 0)) (\<lambda>m. [])
      (step [] (KeyDown Enter) (step [] (Change (js ''Version'')) (initial [])))) =
     lines (initial []) @
       [\<lparr>type = Input, content = js ''$ shuriken '' @ js ''Version'', timestamp = Some []\<rparr>,
        \<lparr>type = Output, content = [0xD83E, 0xDD77] @ js '' Shuriken'', timestamp = Some []\<rparr>] \<and>
   lines (await (\<lambda>m. []) (step [] (KeyDown Enter) (step [] (Change (js ''Version'')) (initial [])))) =
     lines (initial []) @
       [\<lparr>type = Input, content = js ''$ shuriken '' @ js ''Version'', timestamp = Some []\<rparr>,
        \<lparr>type = Output, content = version_output, timestamp = Some []\<rparr>]"
proof -
  let ?s = "step [] (Change (js ''Version'')) (initial [])"
  let ?words = "split_space (output' \<lparr>output' = version_output, delay = 30\<rparr>)"
  have r: "reachable ?s" by (intro reachable.intros)
  have i: "\<not> isProcessing ?s" by (simp add: idle_initial)
  have c: "currentInput ?s = Some (js ''Version'')" by simp
  note t = reveal_completes_with_full_text [OF r i c version_matched, of "\<lambda>m. []" "[]"]
  from t have "await (\<lambda>m. []) (step [] (KeyDown Enter) ?s) =
      ?s\<lparr>commandHistory := commandHistory ?s @ [js ''Version''],
        historyIndex := - 1,
        lines := lines ?s @
          [\<lparr>type = Input, content = js ''$ shuriken '' @ js ''Version'', timestamp = Some []\<rparr>,
           \<lparr>type = Output, content = output' \<lparr>output' = version_output, delay = 30\<rparr>,
             timestamp = Some []\<rparr>],
        currentInput := Some []\<rparr>"
    by blast
  then have fin: "lines (await (\<lambda>m. []) (step [] (KeyDown Enter) ?s)) =
     lines (initial []) @
       [\<lparr>type = Input, content = js ''$ shuriken '' @ js ''Version'', timestamp = Some []\<rparr>,
        \<lparr>type = Output, content = version_output, timestamp = Some []\<rparr>]"
    by simp
  from t have "\<forall>n<length ?words.
      lines (wakes (Suc n) (\<lambda>m. []) (step [] (KeyDown Enter) ?s)) =
        lines ?s @
          [\<lparr>type = Input, content = js ''$ shuriken '' @ js ''Version'', timestamp = Some []\<rparr>,
           \<lparr>type = Output, content = revealed ?words (Suc n), timestamp = Some []\<rparr>]"
    by blast
  moreover have "Suc 0 < length ?words" by (simp add: version_words)
  ultimately have "lines (wakes (Suc (Suc 0)) (\<lambda>m. []) (step [] (KeyDown Enter) ?s)) =
        lines ?s @
          [\<lparr>type = Input, content = js ''$ shuriken '' @ js ''Version'', timestamp = Some []\<rparr>,
           \<lparr>type = Output, content = revealed ?words (Suc (Suc 0)), timestamp = Some []\<rparr>]"
    by blast
  moreover have "revealed ?words (Suc (Suc 0)) = [0xD83E, 0xDD77] @ js '' Shuriken''"
    by (simp add: version_words js_def)
  ultimately have mid: "lines (wakes (Suc (Suc 0)) (\<lambda>m. []) (step [] (KeyDown Enter) ?s)) =
     lines (initial []) @
       [\<lparr>type = Input, content = js ''$ shuriken '' @ js ''Version'', timestamp = Some []\<rparr>,
        \<lparr>type = Output, content = [0xD83E, 0xDD77] @ js '' Shuriken'', timestamp = Some []\<rparr>]"
    by simp
  from r i c version_matched version_words mid fin show ?thesis by blast
qed

section \<open>Clearing the transcript\<close>

text \<open>
  Claim C3. Whatever the transcript holds, running a command that is \<^verbatim>\<open>clear\<close> once trimmed
  and lower-cased replaces the transcript by a single info line and changes nothing else:
  the history, the cursor, the processing flag and the calls in flight stay as they are, so no
  lookup in the command table is started. Pressing Enter on such an input, when no call is in
  flight, does this and empties the input field.
\<close>

theorem clear_resets_transcript:
  assumes "toLowerCase (trim command) = js ''clear''"
  shows
    "executeCommand now command s =
       s\<lparr>lines := [\<lparr>type = Info, content = [0xD83E, 0xDD77] @ js '' Terminal cleared'',
                     timestamp = Some now\<rparr>]\<rparr> \<and>
     length (lines (executeCommand now command s)) = 1 \<and>
     type (hd (lines (executeCommand now command s))) = Info \<and>
     tasks (executeCommand now command s) = tasks s \<and>
     (currentInput s = Some command \<and> \<not> isProcessing s \<longrightarrow>
        step now (KeyDown Enter) s =
          s\<lparr>lines := [\<lparr>type = Info, content = [0xD83E, 0xDD77] @ js '' Terminal cleared'',
                        timestamp = Some now\<rparr>],
            currentInput := Some []\<rparr>)"
  using assms by (simp add: executeCommand_clear enter_clear)

lemma shouted_clear: "toLowerCase (trim (js ''  CLEAR '')) = js ''clear''"
  by (simp add: js_def trim_def toLowerCase_def lowerUnit_def isWhiteSpace_def)

theorem clear_resets_transcript_witness:
  "toLowerCase (trim (js ''  CLEAR '')) = js ''clear'' \<and>
   currentInput (step [] (Change (js ''  CLEAR '')) (initial [])) = Some (js ''  CLEAR '') \<and>
   \<not> isProcessing (step [] (Change (js ''  CLEAR '')) (initial [])) \<and>
   length (lines (step [] (Change (js ''  CLEAR '')) (initial []))) = 2 \<and>
   lines (step [] (KeyDown Enter) (step [] (Change (js ''  CLEAR '')) (initial []))) =
     [\<lparr>type = Info, content = [0xD83E, 0xDD77] @ js '' Terminal cleared'',
       timestamp = Some []\<rparr>]"
proof -
  let ?s = "step [] (Change (js ''  CLEAR '')) (initial [])"
  have c: "currentInput ?s = Some (js ''  CLEAR '')" by simp
  have i: "\<not> isProcessing ?s" by (simp add: idle_initial)
  have l: "length (lines ?s) = 2" by (simp add: lines_initial)
  from clear_resets_transcript [OF shouted_clear, of "[]" ?s] c i
  have "step [] (KeyDown Enter) ?s =
      ?s\<lparr>lines := [\<lparr>type = Info, content = [0xD83E, 0xDD77] @ js '' Terminal cleared'',
                     timestamp = Some []\<rparr>],
        currentInput := Some []\<rparr>"
    by blast
  then have "lines (step [] (KeyDown Enter) ?s) =
     [\<lparr>type = Info, content = [0xD83E, 0xDD77] @ js '' Terminal cleared'',
       timestamp = Some []\<rparr>]"
    by simp
  with shouted_clear c i l show ?thesis by blast
qed

section \<open>Blank input\<close>

text \<open>
  Claim C10. An input that is empty once trimmed changes nothing: \<^verbatim>\<open>executeCommand\<close> returns
  the state it was given, and pressing Enter on such an input leaves the whole state
  (transcript, history, cursor, processing flag, calls in flight and the input field) as it is.
\<close>

theorem blank_submission_noop:
  assumes "trim input = []"
  shows "executeCommand now input s = s \<and>
         (currentInput s = Some input \<longrightarrow> step now (KeyDown Enter) s = s)"
  using assms by (simp add: executeCommand_blank enter_blank)

lemma blank_trimmed: "trim [32, 9, 0xA0, 32] = []"
  by (simp add: trim_def isWhiteSpace_def)

theorem blank_submission_noop_witness:
  "trim [32, 9, 0xA0, 32] = [] \<and>
   currentInput (step [] (Change [32, 9, 0xA0, 32]) (initial [])) = Some [32, 9, 0xA0, 32] \<and>
   executeCommand [] [32, 9, 0xA0, 32] (initial []) = initial [] \<and>
   step [] (KeyDown Enter) (step [] (Change [32, 9, 0xA0, 32]) (initial [])) =
     step [] (Change [32, 9, 0xA0, 32]) (initial [])"
proof -
  let ?s = "step [] (Change [32, 9, 0xA0, 32]) (initial [])"
  have c: "currentInput ?s = Some [32, 9, 0xA0, 32]" by simp
  from blank_submission_noop [OF blank_trimmed, of "[]" ?s] c
  have "step [] (KeyDown Enter) ?s = ?s" by blast
  moreover from blank_submission_noop [OF blank_trimmed, of "[]" "initial []"]
  have "executeCommand [] [32, 9, 0xA0, 32] (initial []) = initial []" by blast
  ultimately show ?thesis using blank_trimmed c by blast
qed

section \<open>One call in flight\<close>

lemma wakes_typing_ends:
  "tasks s = [Typing words i currentText ts dl] \<Longrightarrow> n = length words - i \<Longrightarrow>
   tasks (wakes (Suc n) clock s) = [] \<and> \<not> isProcessing (wakes (Suc n) clock s)"
proof (induction n arbitrary: s i currentText clock)
  case 0
  then have "length words \<le> i" by simp
  with 0 show ?case by (simp add: wake_typing_done)
next
  case (Suc n)
  then have i: "i < length words" by simp
  let ?s1 = "wake (clock 0) 0 s"
  let ?c = "currentText @ (if 0 < i then js '' '' else []) @ words ! i"
  have "tasks ?s1 = [Typing words (Suc i) ?c ts dl]"
    using Suc.prems(1) i by (simp add: wake_typing_more)
  moreover have "n = length words - Suc i" using Suc.prems(2) by simp
  ultimately have "tasks (wakes (Suc n) (\<lambda>m. clock (Suc m)) ?s1) = [] \<and>
      \<not> isProcessing (wakes (Suc n) (\<lambda>m. clock (Suc m)) ?s1)"
    by (rule Suc.IH)
  then show ?case by simp
qed

lemma await_ends:
  assumes "reachable s"
  shows "tasks (await clock s) = [] \<and> \<not> isProcessing (await clock s)"
proof -
  from assms have wf: "well_formed s" by (rule reachable_well_formed)
  show ?thesis
  proof (cases "tasks s")
    case Nil
    with wf show ?thesis by (simp add: await_idle well_formed_def one_in_flight_def)
  next
    case (Cons t ts)
    with wf have ts: "ts = []" by (simp add: well_formed_def one_in_flight_def)
    show ?thesis
    proof (cases t)
      case (Sleeping matched command)
      show ?thesis
      proof (cases matched)
        case None
        with Sleeping Cons ts have "tasks s = [Sleeping None command]" by simp
        then show ?thesis by (simp add: await_unmatched)
      next
        case (Some entry)
        obtain key config where "entry = (key, config)" by (cases entry)
        with Some Sleeping Cons ts
        have "tasks s = [Sleeping (Some (key, config)) command]" by simp
        then show ?thesis by (simp add: await_matched)
      qed
    next
      case (Typing words i currentText tstamp dl)
      with Cons ts have t: "tasks s = [Typing words i currentText tstamp dl]" by simp
      then have "await clock s = wakes (Suc (length words - i)) clock s"
        by (simp add: await_def)
      with wakes_typing_ends [OF t refl, of clock] show ?thesis by simp
    qed
  qed
qed

lemma help_ordinary: "ordinary (js ''help'')"
  using help_matched by (rule matched_ordinary)

text \<open>
  Claim C5. In every reachable state at most one call of \<^verbatim>\<open>executeCommand\<close> is in flight, and
  the processing flag is set exactly while one is. While the flag is set, pressing Enter or
  clicking a suggestion leaves the whole state as it is; a press of Enter that changes the
  transcript finds the flag clear and no call in flight. The call in flight ends after
  finitely many timer expirations, and the flag is clear then.
\<close>

theorem processing_blocks_submission:
  assumes "reachable s"
  shows
    "length (tasks s) \<le> 1 \<and>
     (isProcessing s \<longleftrightarrow> tasks s \<noteq> []) \<and>
     (isProcessing s \<longrightarrow>
        step now (KeyDown Enter) s = s \<and> step now (SuggestionClick suggestion) s = s) \<and>
     (lines (step now (KeyDown Enter) s) \<noteq> lines s \<longrightarrow> \<not> isProcessing s \<and> tasks s = []) \<and>
     tasks (await clock s) = [] \<and> \<not> isProcessing (await clock s)"
proof -
  from assms have wf: "well_formed s" by (rule reachable_well_formed)
  then have a: "length (tasks s) \<le> 1" and b: "isProcessing s \<longleftrightarrow> tasks s \<noteq> []"
    by (simp_all add: well_formed_def one_in_flight_def)
  have c: "isProcessing s \<longrightarrow>
      step now (KeyDown Enter) s = s \<and> step now (SuggestionClick suggestion) s = s"
    by (simp add: enter_processing handleSuggestionClick_def)
  have d: "lines (step now (KeyDown Enter) s) \<noteq> lines s \<longrightarrow> \<not> isProcessing s \<and> tasks s = []"
    using b by (auto simp: enter_processing)
  from a b c d await_ends [OF assms, of clock] show ?thesis by blast
qed

text \<open>The theorem while \<^verbatim>\<open>help\<close> is being answered and \<^verbatim>\<open>version\<close> is typed and sent.\<close>

theorem processing_blocks_submission_witness:
  "reachable (step [] (Change (js ''version''))
      (step [] (KeyDown Enter) (step [] (Change (js ''help'')) (initial [])))) \<and>
   isProcessing (step [] (Change (js ''version''))
      (step [] (KeyDown Enter) (step [] (Change (js ''help'')) (initial [])))) \<and>
   currentInput (step [] (Change (js ''version''))
      (step [] (KeyDown Enter) (step [] (Change (js ''help'')) (initial [])))) =
     Some (js ''version'') \<and>
   step [] (KeyDown Enter) (step [] (Change (js ''version''))
      (step [] (KeyDown Enter) (step [] (Change (js ''help'')) (initial [])))) =
     step [] (Change (js ''version''))
      (step [] (KeyDown Enter) (step [] (Change (js ''help'')) (initial [])))"
proof -
  let ?idle = "step [] (Change (js ''help'')) (initial [])"
  let ?s = "step [] (Change (js ''version'')) (step [] (KeyDown Enter) ?idle)"
  have r0: "reachable ?idle" by (intro reachable.intros)
  have i0: "\<not> isProcessing ?idle" by (simp add: idle_initial)
  have c0: "currentInput ?idle = Some (js ''help'')" by simp
  have "isProcessing (handleKeyDown [] Enter ?idle)"
    unfolding enter_ordinary [OF c0 i0 help_ordinary] by simp
  then have p: "isProcessing ?s" by simp
  have r: "reachable ?s" by (intro reachable.intros)
  have c: "currentInput ?s = Some (js ''version'')" by simp
  from processing_blocks_submission [OF r, of "[]"] p
  have "step [] (KeyDown Enter) ?s = ?s" by blast
  with r p c show ?thesis by blast
qed

section \<open>Unrecognized commands\<close>


lemma submit_ordinary:
  assumes r: "reachable s" and i: "\<not> isProcessing s" and o: "ordinary command"
  shows "commandHistory (submit now clock command s) = commandHistory s @ [command] \<and>
         historyIndex (submit now clock command s) = - 1 \<and>
         currentInput (submit now clock command s) = Some [] \<and>
         \<not> isProcessing (submit now clock command s)"
proof -
  let ?typed = "step now (Change command) s"
  have r': "reachable ?typed" using r by (rule reachable_step)
  have i': "\<not> isProcessing ?typed" using i by simp
  have c': "currentInput ?typed = Some command" by simp
  show ?thesis
  proof (cases "matchedCommand (toLowerCase (trim command))")
    case None
    from answered_unmatched [OF r' i' c' o None, of clock now] i show ?thesis
      unfolding submit_def by simp
  next
    case (Some entry)
    obtain key config where "entry = (key, config)" by (cases entry)
    with Some have m: "matchedCommand (toLowerCase (trim command)) = Some (key, config)"
      by simp
    from answered_matched [OF r' i' c' m, of clock now] i show ?thesis
      unfolding submit_def by simp
  qed
qed





section \<open>What a submission records\<close>

lemma x_ordinary: "ordinary (js ''x'')"
  by (simp add: ordinary_def js_def trim_def toLowerCase_def lowerUnit_def isWhiteSpace_def)

lemma plain_clear: "toLowerCase (trim (js ''clear'')) = js ''clear''"
  by (simp add: js_def trim_def toLowerCase_def lowerUnit_def isWhiteSpace_def)

lemma reachable_first_x: "reachable (submit [] (\<lambda>m. []) (js ''x'') (initial []))"
  by (intro reachable_submit reachable_initial)

lemma first_x:
  "commandHistory (submit [] (\<lambda>m. []) (js ''x'') (initial [])) = [js ''x''] \<and>
   historyIndex (submit [] (\<lambda>m. []) (js ''x'') (initial [])) = - 1 \<and>
   currentInput (submit [] (\<lambda>m. []) (js ''x'') (initial [])) = Some [] \<and>
   \<not> isProcessing (submit [] (\<lambda>m. []) (js ''x'') (initial []))"
  using submit_ordinary [OF reachable_initial idle_initial x_ordinary,
      where now = "[]" and clock = "\<lambda>m. []" and ?now1 = "[]"]
  by (simp add: initial_def)

lemma recalled_x:
  "step [] (KeyDown ArrowUp) (submit [] (\<lambda>m. []) (js ''x'') (initial [])) =
     (submit [] (\<lambda>m. []) (js ''x'') (initial []))
       \<lparr>historyIndex := 0, currentInput := Some (js ''x'')\<rparr>"
  using first_x by (simp add: arrowUp_inactive)

text \<open>
  Claim C7 as stated fails: after \<^verbatim>\<open>x\<close> has been answered and recalled with ArrowUp, typing
  \<^verbatim>\<open>clear\<close> and pressing Enter neither appends \<^verbatim>\<open>clear\<close> to the history nor resets the cursor.
\<close>

theorem submission_records_history_counterexample:
  "currentInput (step [] (Change (js ''clear''))
      (step [] (KeyDown ArrowUp) (submit [] (\<lambda>m. []) (js ''x'') (initial [])))) =
     Some (js ''clear'') \<and>
   \<not> isProcessing (step [] (Change (js ''clear''))
      (step [] (KeyDown ArrowUp) (submit [] (\<lambda>m. []) (js ''x'') (initial [])))) \<and>
   commandHistory (step [] (KeyDown Enter) (step [] (Change (js ''clear''))
      (step [] (KeyDown ArrowUp) (submit [] (\<lambda>m. []) (js ''x'') (initial []))))) =
     [js ''x''] \<and>
   historyIndex (step [] (KeyDown Enter) (step [] (Change (js ''clear''))
      (step [] (KeyDown ArrowUp) (submit [] (\<lambda>m. []) (js ''x'') (initial []))))) = 0"
proof -
  let ?typed = "step [] (Change (js ''clear''))
      (step [] (KeyDown ArrowUp) (submit [] (\<lambda>m. []) (js ''x'') (initial [])))"
  have c: "currentInput ?typed = Some (js ''clear'')" by simp
  have i: "\<not> isProcessing ?typed" unfolding recalled_x using first_x by simp
  have h: "commandHistory ?typed = [js ''x'']" unfolding recalled_x using first_x by simp
  have k: "historyIndex ?typed = 0" unfolding recalled_x by simp
  have "handleKeyDown [] Enter ?typed =
      ?typed\<lparr>lines := [\<lparr>type = Info, content = [0xD83E, 0xDD77] @ js '' Terminal cleared'',
                        timestamp = Some []\<rparr>],
        currentInput := Some []\<rparr>"
    using c i plain_clear by (rule enter_clear)
  then have "commandHistory (step [] (KeyDown Enter) ?typed) = commandHistory ?typed"
    and "historyIndex (step [] (KeyDown Enter) ?typed) = historyIndex ?typed"
    by simp_all
  with c i h k show ?thesis by simp
qed

text \<open>
  Claim C7, amended. Running a command that is neither blank nor \<^verbatim>\<open>clear\<close> appends the
  input as typed (not trimmed, not lower-cased) to the history and makes the cursor inactive,
  also when it is sent with Enter; running \<^verbatim>\<open>clear\<close> or a blank input leaves history and
  cursor as they are.
\<close>

theorem submission_records_history:
  "(ordinary command \<longrightarrow>
      commandHistory (executeCommand now command s) = commandHistory s @ [command] \<and>
      historyIndex (executeCommand now command s) = - 1) \<and>
   (\<not> ordinary command \<longrightarrow>
      commandHistory (executeCommand now command s) = commandHistory s \<and>
      historyIndex (executeCommand now command s) = historyIndex s) \<and>
   (ordinary command \<and> currentInput s = Some command \<and> \<not> isProcessing s \<longrightarrow>
      commandHistory (step now (KeyDown Enter) s) = commandHistory s @ [command] \<and>
      historyIndex (step now (KeyDown Enter) s) = - 1)"
proof (intro conjI impI)
  assume "ordinary command"
  then show "commandHistory (executeCommand now command s) = commandHistory s @ [command]"
    and "historyIndex (executeCommand now command s) = - 1"
    by (simp_all add: executeCommand_ordinary)
next
  assume n: "\<not> ordinary command"
  from input_cases [of command] n
  have "trim command = [] \<or> toLowerCase (trim command) = js ''clear''" by blast
  then show "commandHistory (executeCommand now command s) = commandHistory s"
    and "historyIndex (executeCommand now command s) = historyIndex s"
    by (auto simp: executeCommand_blank executeCommand_clear)
next
  assume "ordinary command \<and> currentInput s = Some command \<and> \<not> isProcessing s"
  then show "commandHistory (step now (KeyDown Enter) s) = commandHistory s @ [command]"
    and "historyIndex (step now (KeyDown Enter) s) = - 1"
    by (simp_all add: enter_ordinary)
qed

text \<open>The theorem at an input with capitals and spaces around it, and at \<^verbatim>\<open>clear\<close>.\<close>

lemma spaced_help_ordinary: "ordinary (js ''  HeLP  '')"
  by (simp add: ordinary_def js_def trim_def toLowerCase_def lowerUnit_def isWhiteSpace_def)

lemma clear_not_ordinary: "\<not> ordinary (js ''clear'')"
  by (simp add: ordinary_def plain_clear)

theorem submission_records_history_witness:
  "ordinary (js ''  HeLP  '') \<and>
   currentInput (step [] (Change (js ''  HeLP  '')) (initial [])) = Some (js ''  HeLP  '') \<and>
   \<not> isProcessing (step [] (Change (js ''  HeLP  '')) (initial [])) \<and>
   commandHistory (step [] (KeyDown Enter) (step [] (Change (js ''  HeLP  '')) (initial []))) =
     [js ''  HeLP  ''] \<and>
   historyIndex (step [] (KeyDown Enter) (step [] (Change (js ''  HeLP  '')) (initial []))) = - 1 \<and>
   \<not> ordinary (js ''clear'') \<and>
   commandHistory (executeCommand [] (js ''clear'') (initial [])) = []"
proof -
  let ?typed = "step [] (Change (js ''  HeLP  '')) (initial [])"
  have c: "currentInput ?typed = Some (js ''  HeLP  '')" by simp
  have i: "\<not> isProcessing ?typed" by (simp add: idle_initial)
  from submission_records_history [of "js ''  HeLP  ''" "[]" ?typed] spaced_help_ordinary c i
  have "commandHistory (step [] (KeyDown Enter) ?typed) =
        commandHistory ?typed @ [js ''  HeLP  '']"
    and k: "historyIndex (step [] (KeyDown Enter) ?typed) = - 1"
    by blast+
  then have h: "commandHistory (step [] (KeyDown Enter) ?typed) = [js ''  HeLP  '']"
    by (simp add: initial_def)
  from submission_records_history [of "js ''clear''" "[]" "initial []"] clear_not_ordinary
  have "commandHistory (executeCommand [] (js ''clear'') (initial [])) =
      commandHistory (initial [])"
    by blast
  then have e: "commandHistory (executeCommand [] (js ''clear'') (initial [])) = []"
    by (simp add: initial_def)
  from spaced_help_ordinary c i h k clear_not_ordinary e show ?thesis by blast
qed

section \<open>The history cursor\<close>

lemma recall_previous_shows_entry:
  assumes "cursor_valid s"
    and "historyIndex (handleKeyDown now ArrowUp s) \<noteq> - 1"
  shows "currentInput (handleKeyDown now ArrowUp s) =
     Some (commandHistory (handleKeyDown now ArrowUp s) !
       nat (historyIndex (handleKeyDown now ArrowUp s)))"
proof (cases "commandHistory s = []")
  case True
  with assms show ?thesis by (simp add: arrowUp_empty cursor_valid_def)
next
  case False
  from assms(1) show ?thesis
    unfolding cursor_valid_def
  proof (elim disjE conjE)
    assume i: "historyIndex s = - 1"
    have "nat (int (length (commandHistory s)) - 1) = length (commandHistory s) - 1"
      by simp
    with False i show ?thesis
      by (simp add: arrowUp_inactive last_conv_nth)
  next
    assume "0 \<le> historyIndex s" "historyIndex s < int (length (commandHistory s))"
    then show ?thesis by (simp add: arrowUp_active)
  qed
qed

lemma recall_next_shows_entry:
  assumes "cursor_valid s"
    and "historyIndex (handleKeyDown now ArrowDown s) \<noteq> - 1"
  shows "currentInput (handleKeyDown now ArrowDown s) =
     Some (commandHistory (handleKeyDown now ArrowDown s) !
       nat (historyIndex (handleKeyDown now ArrowDown s)))"
proof -
  consider "historyIndex s \<le> - 1"
    | "0 \<le> historyIndex s" "historyIndex s + 1 < int (length (commandHistory s))"
    | "0 \<le> historyIndex s" "int (length (commandHistory s)) \<le> historyIndex s + 1"
    by linarith
  then show ?thesis
  proof cases
    case 1
    with assms(1) have "historyIndex s = - 1" by (simp add: cursor_valid_def)
    with assms(2) 1 show ?thesis by (simp add: arrowDown_inactive)
  next
    case 2
    then show ?thesis by (simp add: arrowDown_inner)
  next
    case 3
    with assms(2) show ?thesis by (simp add: arrowDown_newest)
  qed
qed


text \<open>
  Claim C8 as stated fails: after \<^verbatim>\<open>x\<close> has been answered and recalled with ArrowUp, typing
  one more letter leaves the cursor on the entry while the input field holds another text.
\<close>

theorem cursor_stays_valid_counterexample:
  "reachable (step [] (Change (js ''xy''))
      (step [] (KeyDown ArrowUp) (submit [] (\<lambda>m. []) (js ''x'') (initial [])))) \<and>
   historyIndex (step [] (Change (js ''xy''))
      (step [] (KeyDown ArrowUp) (submit [] (\<lambda>m. []) (js ''x'') (initial [])))) = 0 \<and>
   commandHistory (step [] (Change (js ''xy''))
      (step [] (KeyDown ArrowUp) (submit [] (\<lambda>m. []) (js ''x'') (initial [])))) = [js ''x''] \<and>
   currentInput (step [] (Change (js ''xy''))
      (step [] (KeyDown ArrowUp) (submit [] (\<lambda>m. []) (js ''x'') (initial [])))) =
     Some (js ''xy'') \<and>
   js ''xy'' \<noteq> js ''x''"
proof -
  let ?typed = "step [] (Change (js ''xy''))
      (step [] (KeyDown ArrowUp) (submit [] (\<lambda>m. []) (js ''x'') (initial [])))"
  have r: "reachable ?typed"
    by (intro reachable_step reachable_first_x)
  have k: "historyIndex ?typed = 0" unfolding recalled_x by simp
  have h: "commandHistory ?typed = [js ''x'']" unfolding recalled_x using first_x by simp
  have c: "currentInput ?typed = Some (js ''xy'')" by simp
  have d: "js ''xy'' \<noteq> js ''x''" by (simp add: js_def)
  from r k h c d show ?thesis by blast
qed

text \<open>
  Claim C8, amended. In every reachable state the history cursor is inactive or indexes an
  entry of the history, and every event keeps it so. Right after a recall (ArrowUp or
  ArrowDown) that leaves the cursor active, the input field holds the entry at the cursor.
  Typing and suggestion clicks change the input field and leave the cursor where it is, so
  the field and the entry at the cursor may differ afterwards.
\<close>

theorem cursor_stays_valid:
  assumes "reachable s"
  shows
    "(historyIndex s = - 1 \<or>
        (0 \<le> historyIndex s \<and> historyIndex s < int (length (commandHistory s)))) \<and>
     cursor_valid (step now e s) \<and>
     (historyIndex (step now (KeyDown ArrowUp) s) \<noteq> - 1 \<longrightarrow>
        currentInput (step now (KeyDown ArrowUp) s) =
          Some (commandHistory (step now (KeyDown ArrowUp) s) !
            nat (historyIndex (step now (KeyDown ArrowUp) s)))) \<and>
     (historyIndex (step now (KeyDown ArrowDown) s) \<noteq> - 1 \<longrightarrow>
        currentInput (step now (KeyDown ArrowDown) s) =
          Some (commandHistory (step now (KeyDown ArrowDown) s) !
            nat (historyIndex (step now (KeyDown ArrowDown) s)))) \<and>
     historyIndex (step now (Change v) s) = historyIndex s \<and>
     (\<not> isProcessing s \<longrightarrow>
        historyIndex (step now (SuggestionClick suggestion) s) = historyIndex s \<and>
        currentInput (step now (SuggestionClick suggestion) s) = Some suggestion)"
proof -
  from assms have "well_formed s" by (rule reachable_well_formed)
  then have v: "cursor_valid s" by (simp add: well_formed_def)
  have "reachable (step now e s)" using assms by (rule reachable_step)
  then have "well_formed (step now e s)" by (rule reachable_well_formed)
  then have v': "cursor_valid (step now e s)" by (simp add: well_formed_def)
  from v have a: "historyIndex s = - 1 \<or>
      (0 \<le> historyIndex s \<and> historyIndex s < int (length (commandHistory s)))"
    by (simp add: cursor_valid_def)
  have u: "historyIndex (step now (KeyDown ArrowUp) s) \<noteq> - 1 \<longrightarrow>
        currentInput (step now (KeyDown ArrowUp) s) =
          Some (commandHistory (step now (KeyDown ArrowUp) s) !
            nat (historyIndex (step now (KeyDown ArrowUp) s)))"
    using recall_previous_shows_entry [OF v, of now] by simp
  have d: "historyIndex (step now (KeyDown ArrowDown) s) \<noteq> - 1 \<longrightarrow>
        currentInput (step now (KeyDown ArrowDown) s) =
          Some (commandHistory (step now (KeyDown ArrowDown) s) !
            nat (historyIndex (step now (KeyDown ArrowDown) s)))"
    using recall_next_shows_entry [OF v, of now] by simp
  have t: "historyIndex (step now (Change v) s) = historyIndex s" by simp
  have g: "\<not> isProcessing s \<longrightarrow>
        historyIndex (step now (SuggestionClick suggestion) s) = historyIndex s \<and>
        currentInput (step now (SuggestionClick suggestion) s) = Some suggestion"
    by (simp add: handleSuggestionClick_def)
  from a v' u d t g show ?thesis by blast
qed

text \<open>The theorem after \<^verbatim>\<open>x\<close> has been answered in a fresh widget.\<close>

theorem cursor_stays_valid_witness:
  "reachable (submit [] (\<lambda>m. []) (js ''x'') (initial [])) \<and>
   historyIndex (step [] (KeyDown ArrowUp) (submit [] (\<lambda>m. []) (js ''x'') (initial []))) = 0 \<and>
   commandHistory (step [] (KeyDown ArrowUp) (submit [] (\<lambda>m. []) (js ''x'') (initial []))) =
     [js ''x''] \<and>
   currentInput (step [] (KeyDown ArrowUp) (submit [] (\<lambda>m. []) (js ''x'') (initial []))) =
     Some (js ''x'') \<and>
   cursor_valid (step [] (KeyDown ArrowUp) (submit [] (\<lambda>m. []) (js ''x'') (initial [])))"
proof -
  let ?answered = "submit [] (\<lambda>m. []) (js ''x'') (initial [])"
  note t = cursor_stays_valid [OF reachable_first_x, of "[]" "KeyDown ArrowUp"]
  have k: "historyIndex (step [] (KeyDown ArrowUp) ?answered) = 0"
    unfolding recalled_x by simp
  have h: "commandHistory (step [] (KeyDown ArrowUp) ?answered) = [js ''x'']"
    unfolding recalled_x using first_x by simp
  from t k have "currentInput (step [] (KeyDown ArrowUp) ?answered) =
      Some (commandHistory (step [] (KeyDown ArrowUp) ?answered) !
        nat (historyIndex (step [] (KeyDown ArrowUp) ?answered)))"
    by simp
  with k h have c: "currentInput (step [] (KeyDown ArrowUp) ?answered) = Some (js ''x'')"
    by simp
  from t have "cursor_valid (step [] (KeyDown ArrowUp) ?answered)" by blast
  with reachable_first_x k h c show ?thesis by blast
qed

section \<open>Recalling the history\<close>

lemma recall_0: "recall now 0 s = s"
  by (simp add: recall_def)

lemma recall_Suc: "recall now (Suc n) s = handleKeyDown now ArrowUp (recall now n s)"
  by (simp add: recall_def)

lemma submit_all_ordinary:
  assumes "reachable s" and "\<not> isProcessing s" and "\<forall>c\<in>set commands. ordinary c"
  shows "reachable (submit_all now clock commands s) \<and>
         commandHistory (submit_all now clock commands s) = commandHistory s @ commands \<and>
         (commands \<noteq> [] \<longrightarrow> historyIndex (submit_all now clock commands s) = - 1) \<and>
         \<not> isProcessing (submit_all now clock commands s)"
  using assms
proof (induction commands arbitrary: s)
  case Nil
  then show ?case by simp
next
  case (Cons c cs)
  let ?s1 = "submit now clock c s"
  from Cons.prems have o: "ordinary c" by simp
  note s1 = submit_ordinary [OF Cons.prems(1,2) o, of now clock]
  have r1: "reachable ?s1" using Cons.prems(1) by (rule reachable_submit)
  from s1 have i1: "\<not> isProcessing ?s1" by blast
  from Cons.prems have "\<forall>c\<in>set cs. ordinary c" by simp
  with r1 i1 have IH: "reachable (submit_all now clock cs ?s1) \<and>
         commandHistory (submit_all now clock cs ?s1) = commandHistory ?s1 @ cs \<and>
         (cs \<noteq> [] \<longrightarrow> historyIndex (submit_all now clock cs ?s1) = - 1) \<and>
         \<not> isProcessing (submit_all now clock cs ?s1)"
    by (rule Cons.IH)
  show ?case
  proof (cases "cs = []")
    case True
    with s1 r1 show ?thesis by simp
  next
    case False
    with IH s1 show ?thesis by simp
  qed
qed

lemma up_from_inactive:
  assumes "commandHistory s = h" and "h \<noteq> []" and "historyIndex s = - 1"
  shows "commandHistory (handleKeyDown now ArrowUp s) = h \<and>
         historyIndex (handleKeyDown now ArrowUp s) = int (length h - 1) \<and>
         currentInput (handleKeyDown now ArrowUp s) = Some (last h)"
proof -
  from assms have "commandHistory s \<noteq> []" by simp
  from arrowUp_inactive [OF this assms(3), of now] assms(1,2) show ?thesis
    by (cases h) simp_all
qed

lemma up_from_active:
  assumes "commandHistory s = h" and "historyIndex s = int i" and "i < length h"
  shows "commandHistory (handleKeyDown now ArrowUp s) = h \<and>
         historyIndex (handleKeyDown now ArrowUp s) = int (i - 1) \<and>
         currentInput (handleKeyDown now ArrowUp s) = Some (h ! (i - 1))"
proof -
  have a: "0 \<le> historyIndex s" using assms(2) by simp
  have b: "historyIndex s < int (length (commandHistory s))" using assms by simp
  have "max 0 (int i - 1) = int (i - 1)" by (cases i) simp_all
  with arrowUp_active [OF a b, of now] assms show ?thesis by simp
qed

lemma recall_three:
  assumes h: "commandHistory s = h @ [a, b, c]" and i: "historyIndex s = - 1"
  shows "commandHistory (recall now 1 s) = h @ [a, b, c] \<and>
         historyIndex (recall now 1 s) = int (length h + 2) \<and>
         commandHistory (recall now 3 s) = h @ [a, b, c] \<and>
         currentInput (recall now 1 s) = Some c \<and>
         currentInput (recall now 2 s) = Some b \<and>
         currentInput (recall now 3 s) = Some a \<and>
         historyIndex (recall now 3 s) = int (length h) \<and>
         currentInput (recall now 4 s) = Some (if h = [] then a else last h) \<and>
         historyIndex (recall now 4 s) = int (length h - 1)"
proof -
  let ?H = "h @ [a, b, c]"
  have n: "?H \<noteq> []" by simp
  have r1: "recall now 1 s = handleKeyDown now ArrowUp s"
    by (simp add: recall_def)
  from up_from_inactive [OF h n i, of now]
  have u1: "commandHistory (recall now 1 s) = ?H"
    "historyIndex (recall now 1 s) = int (length h + 2)"
    "currentInput (recall now 1 s) = Some c"
    unfolding r1 by simp_all
  have r2: "recall now 2 s = handleKeyDown now ArrowUp (recall now 1 s)"
    by (simp add: recall_def numeral_2_eq_2)
  have "length h + 2 < length ?H" by simp
  from up_from_active [OF u1(1,2) this, of now]
  have u2: "commandHistory (recall now 2 s) = ?H"
    "historyIndex (recall now 2 s) = int (length h + 1)"
    "currentInput (recall now 2 s) = Some b"
    unfolding r2 by (simp_all add: nth_append)
  have r3: "recall now 3 s = handleKeyDown now ArrowUp (recall now 2 s)"
    by (simp add: recall_def numeral_3_eq_3 numeral_2_eq_2)
  have "length h + 1 < length ?H" by simp
  from up_from_active [OF u2(1,2) this, of now]
  have u3: "commandHistory (recall now 3 s) = ?H"
    "historyIndex (recall now 3 s) = int (length h)"
    "currentInput (recall now 3 s) = Some a"
    unfolding r3 by (simp_all add: nth_append)
  have r4: "recall now 4 s = handleKeyDown now ArrowUp (recall now 3 s)"
    by (simp add: recall_def eval_nat_numeral)
  have "length h < length ?H" by simp
  from up_from_active [OF u3(1,2) this, of now]
  have u4: "historyIndex (recall now 4 s) = int (length h - 1)"
    "currentInput (recall now 4 s) = Some (?H ! (length h - 1))"
    unfolding r4 by simp_all
  have "?H ! (length h - 1) = (if h = [] then a else last h)"
    by (cases h rule: rev_cases) (simp_all add: nth_append)
  with u1 u2 u3 u4 show ?thesis by simp
qed


lemma submit_clear:
  assumes r: "reachable s" and i: "\<not> isProcessing s"
    and c: "toLowerCase (trim command) = js ''clear''"
  shows "commandHistory (submit now clock command s) = commandHistory s \<and>
         historyIndex (submit now clock command s) = historyIndex s \<and>
         \<not> isProcessing (submit now clock command s)"
proof -
  let ?typed = "step now (Change command) s"
  have t: "tasks s = []" using r i by (intro idle_no_tasks reachable_well_formed)
  have i': "\<not> isProcessing ?typed" using i by simp
  have c': "currentInput ?typed = Some command" by simp
  have e: "handleKeyDown now Enter ?typed =
      ?typed\<lparr>lines := [\<lparr>type = Info, content = [0xD83E, 0xDD77] @ js '' Terminal cleared'',
                        timestamp = Some now\<rparr>],
        currentInput := Some []\<rparr>"
    using c' i' c by (rule enter_clear)
  have "tasks (handleKeyDown now Enter ?typed) = []" unfolding e using t by simp
  then have "await clock (handleKeyDown now Enter ?typed) = handleKeyDown now Enter ?typed"
    by (rule await_idle)
  then have "submit now clock command s = handleKeyDown now Enter ?typed"
    by (simp add: submit_def)
  then show ?thesis unfolding e using i by simp
qed

lemma a_ordinary: "ordinary (js ''a'')"
  by (simp add: ordinary_def js_def trim_def toLowerCase_def lowerUnit_def isWhiteSpace_def)

lemma b_ordinary: "ordinary (js ''b'')"
  by (simp add: ordinary_def js_def trim_def toLowerCase_def lowerUnit_def isWhiteSpace_def)

lemma c_ordinary: "ordinary (js ''c'')"
  by (simp add: ordinary_def js_def trim_def toLowerCase_def lowerUnit_def isWhiteSpace_def)

text \<open>
  Claim C4 as stated fails. With \<^verbatim>\<open>x\<close> already in the history, after \<^verbatim>\<open>a\<close>, \<^verbatim>\<open>b\<close> and \<^verbatim>\<open>c\<close>
  the fourth ArrowUp shows \<^verbatim>\<open>x\<close>, not \<^verbatim>\<open>a\<close>. And in a fresh widget, after \<^verbatim>\<open>a\<close>, \<^verbatim>\<open>clear\<close> and
  \<^verbatim>\<open>c\<close> the second ArrowUp shows \<^verbatim>\<open>a\<close>, not \<^verbatim>\<open>clear\<close>.
\<close>

theorem history_recall_counterexample:
  "reachable (submit [] (\<lambda>m. []) (js ''x'') (initial [])) \<and>
   \<not> isProcessing (submit [] (\<lambda>m. []) (js ''x'') (initial [])) \<and>
   currentInput (recall [] 4 (submit_all [] (\<lambda>m. []) [js ''a'', js ''b'', js ''c'']
      (submit [] (\<lambda>m. []) (js ''x'') (initial [])))) = Some (js ''x'') \<and>
   js ''x'' \<noteq> js ''a'' \<and>
   currentInput (recall [] 2 (submit_all [] (\<lambda>m. []) [js ''a'', js ''clear'', js ''c'']
      (initial []))) = Some (js ''a'') \<and>
   js ''a'' \<noteq> js ''clear''"
proof -
  let ?prior = "submit [] (\<lambda>m. []) (js ''x'') (initial [])"
  let ?S = "submit_all [] (\<lambda>m. []) [js ''a'', js ''b'', js ''c''] ?prior"
  from first_x have i: "\<not> isProcessing ?prior" and hx: "commandHistory ?prior = [js ''x'']"
    by blast+
  have "\<forall>k\<in>set [js ''a'', js ''b'', js ''c'']. ordinary k"
    by (simp add: a_ordinary b_ordinary c_ordinary)
  from submit_all_ordinary [OF reachable_first_x i this, of "[]" "\<lambda>m. []"] hx
  have "commandHistory ?S = [js ''x''] @ [js ''a'', js ''b'', js ''c'']"
    and "historyIndex ?S = - 1"
    by simp_all
  from recall_three [OF this, of "[]"]
  have one: "currentInput (recall [] 4 ?S) = Some (js ''x'')" by simp
  let ?s1 = "submit [] (\<lambda>m. []) (js ''a'') (initial [])"
  let ?s2 = "submit [] (\<lambda>m. []) (js ''clear'') ?s1"
  let ?s3 = "submit [] (\<lambda>m. []) (js ''c'') ?s2"
  note s1 = submit_ordinary [OF reachable_initial idle_initial a_ordinary,
      where now = "[]" and clock = "\<lambda>m. []" and ?now1 = "[]"]
  have r1: "reachable ?s1" by (intro reachable_submit reachable_initial)
  from s1 have i1: "\<not> isProcessing ?s1" by blast
  note s2 = submit_clear [OF r1 i1 plain_clear, of "[]" "\<lambda>m. []"]
  have r2: "reachable ?s2" by (intro reachable_submit reachable_initial)
  from s2 have i2: "\<not> isProcessing ?s2" by blast
  note s3 = submit_ordinary [OF r2 i2 c_ordinary, of "[]" "\<lambda>m. []"]
  from s1 s2 s3 have h3: "commandHistory ?s3 = [js ''a'', js ''c'']"
    and k3: "historyIndex ?s3 = - 1"
    by (simp_all add: initial_def)
  have n3: "[js ''a'', js ''c''] \<noteq> []" by simp
  from up_from_inactive [OF h3 n3 k3, of "[]"]
  have h4: "commandHistory (recall [] 1 ?s3) = [js ''a'', js ''c'']"
    and k4: "historyIndex (recall [] 1 ?s3) = int 1"
    by (simp_all add: recall_def)
  have "(1::nat) < length [js ''a'', js ''c'']" by simp
  from up_from_active [OF h4 k4 this, of "[]"]
  have "currentInput (recall [] 2 ?s3) = Some (js ''a'')"
    by (simp add: recall_def numeral_2_eq_2)
  then have two: "currentInput (recall [] 2 (submit_all [] (\<lambda>m. [])
      [js ''a'', js ''clear'', js ''c''] (initial []))) = Some (js ''a'')"
    by simp
  have d: "js ''x'' \<noteq> js ''a''" "js ''a'' \<noteq> js ''clear''" by (simp_all add: js_def)
  from reachable_first_x i one two d show ?thesis by blast
qed


text \<open>
  Claim C4, amended. From a reachable state with no call in flight, after the commands
  \<open>a\<close>, \<open>b\<close> and \<open>c\<close> (each neither blank nor \<^verbatim>\<open>clear\<close>) have been submitted and answered,
  one ArrowUp puts \<open>c\<close> into the input field, a second \<open>b\<close>, a third \<open>a\<close>; when the history was
  empty before, a fourth leaves \<open>a\<close> there with the cursor at index 0, and otherwise it shows
  the last entry that was in the history before. In any state with the cursor active,
  ArrowDown moves the cursor one entry towards the newest and shows that entry, and from the
  newest entry it makes the cursor inactive and empties the input field.
\<close>

theorem history_recall:
  assumes "reachable s" and "\<not> isProcessing s"
    and "ordinary a" and "ordinary b" and "ordinary c"
  shows
    "currentInput (recall now 1 (submit_all sent clock [a, b, c] s)) = Some c \<and>
     currentInput (recall now 2 (submit_all sent clock [a, b, c] s)) = Some b \<and>
     currentInput (recall now 3 (submit_all sent clock [a, b, c] s)) = Some a \<and>
     (commandHistory s = [] \<longrightarrow>
        currentInput (recall now 4 (submit_all sent clock [a, b, c] s)) = Some a \<and>
        historyIndex (recall now 3 (submit_all sent clock [a, b, c] s)) = 0 \<and>
        historyIndex (recall now 4 (submit_all sent clock [a, b, c] s)) = 0) \<and>
     (commandHistory s \<noteq> [] \<longrightarrow>
        currentInput (recall now 4 (submit_all sent clock [a, b, c] s)) =
          Some (last (commandHistory s))) \<and>
     (0 \<le> historyIndex s' \<and> historyIndex s' + 1 < int (length (commandHistory s')) \<longrightarrow>
        step now (KeyDown ArrowDown) s' =
          s'\<lparr>historyIndex := historyIndex s' + 1,
             currentInput := Some (commandHistory s' ! nat (historyIndex s' + 1))\<rparr>) \<and>
     (0 \<le> historyIndex s' \<and> int (length (commandHistory s')) \<le> historyIndex s' + 1 \<longrightarrow>
        step now (KeyDown ArrowDown) s' = s'\<lparr>historyIndex := - 1, currentInput := Some []\<rparr>)"
proof -
  let ?S = "submit_all sent clock [a, b, c] s"
  have "\<forall>k\<in>set [a, b, c]. ordinary k" using assms(3-5) by simp
  from submit_all_ordinary [OF assms(1,2) this, of sent clock]
  have "commandHistory ?S = commandHistory s @ [a, b, c]" and "historyIndex ?S = - 1"
    by simp_all
  from recall_three [OF this, of now]
  have up: "currentInput (recall now 1 ?S) = Some c"
    "currentInput (recall now 2 ?S) = Some b"
    "currentInput (recall now 3 ?S) = Some a"
    "historyIndex (recall now 3 ?S) = int (length (commandHistory s))"
    "currentInput (recall now 4 ?S) =
       Some (if commandHistory s = [] then a else last (commandHistory s))"
    "historyIndex (recall now 4 ?S) = int (length (commandHistory s) - 1)"
    by blast+
  have down: "0 \<le> historyIndex s' \<and> historyIndex s' + 1 < int (length (commandHistory s')) \<longrightarrow>
        step now (KeyDown ArrowDown) s' =
          s'\<lparr>historyIndex := historyIndex s' + 1,
             currentInput := Some (commandHistory s' ! nat (historyIndex s' + 1))\<rparr>"
    by (simp add: arrowDown_inner)
  have past: "0 \<le> historyIndex s' \<and> int (length (commandHistory s')) \<le> historyIndex s' + 1 \<longrightarrow>
        step now (KeyDown ArrowDown) s' = s'\<lparr>historyIndex := - 1, currentInput := Some []\<rparr>"
    by (simp add: arrowDown_newest)
  from up down past show ?thesis by simp
qed

text \<open>
  The theorem in a fresh widget with \<^verbatim>\<open>a\<close>, \<^verbatim>\<open>b\<close> and \<^verbatim>\<open>c\<close>: four times ArrowUp, and ArrowDown
  from the oldest and from the newest entry.
\<close>

theorem history_recall_witness:
  "reachable (initial []) \<and> \<not> isProcessing (initial []) \<and>
   ordinary (js ''a'') \<and> ordinary (js ''b'') \<and> ordinary (js ''c'') \<and>
   commandHistory (initial []) = [] \<and>
   currentInput (recall [] 1 (submit_all [] (\<lambda>m. []) [js ''a'', js ''b'', js ''c''] (initial []))) =
     Some (js ''c'') \<and>
   currentInput (recall [] 2 (submit_all [] (\<lambda>m. []) [js ''a'', js ''b'', js ''c''] (initial []))) =
     Some (js ''b'') \<and>
   currentInput (recall [] 3 (submit_all [] (\<lambda>m. []) [js ''a'', js ''b'', js ''c''] (initial []))) =
     Some (js ''a'') \<and>
   currentInput (recall [] 4 (submit_all [] (\<lambda>m. []) [js ''a'', js ''b'', js ''c''] (initial []))) =
     Some (js ''a'') \<and>
   historyIndex (recall [] 4 (submit_all [] (\<lambda>m. []) [js ''a'', js ''b'', js ''c''] (initial []))) =
     0 \<and>
   currentInput (step [] (KeyDown ArrowDown)
      (recall [] 3 (submit_all [] (\<lambda>m. []) [js ''a'', js ''b'', js ''c''] (initial [])))) =
     Some (js ''b'') \<and>
   currentInput (step [] (KeyDown ArrowDown)
      (recall [] 1 (submit_all [] (\<lambda>m. []) [js ''a'', js ''b'', js ''c''] (initial [])))) =
     Some [] \<and>
   historyIndex (step [] (KeyDown ArrowDown)
      (recall [] 1 (submit_all [] (\<lambda>m. []) [js ''a'', js ''b'', js ''c''] (initial [])))) = - 1"
proof -
  let ?S = "submit_all [] (\<lambda>m. []) [js ''a'', js ''b'', js ''c''] (initial [])"
  have e: "commandHistory (initial []) = []" by (simp add: initial_def)
  have "\<forall>k\<in>set [js ''a'', js ''b'', js ''c'']. ordinary k"
    by (simp add: a_ordinary b_ordinary c_ordinary)
  from submit_all_ordinary [OF reachable_initial idle_initial this,
      where now = "[]" and clock = "\<lambda>m. []" and ?now1 = "[]"] e
  have "commandHistory ?S = [] @ [js ''a'', js ''b'', js ''c'']" and "historyIndex ?S = - 1"
    by simp_all
  from recall_three [OF this, of "[]"]
  have h1: "commandHistory (recall [] 1 ?S) = [js ''a'', js ''b'', js ''c'']"
    and k1: "historyIndex (recall [] 1 ?S) = 2"
    and h3: "commandHistory (recall [] 3 ?S) = [js ''a'', js ''b'', js ''c'']"
    and k3: "historyIndex (recall [] 3 ?S) = 0"
    by simp_all
  note t = history_recall [OF reachable_initial idle_initial a_ordinary b_ordinary c_ordinary,
      where now = "[]" and sent = "[]" and clock = "\<lambda>m. []" and ?now1 = "[]"]
  from t [of "recall [] 3 ?S"] e
  have up: "currentInput (recall [] 1 ?S) = Some (js ''c'')"
    "currentInput (recall [] 2 ?S) = Some (js ''b'')"
    "currentInput (recall [] 3 ?S) = Some (js ''a'')"
    "currentInput (recall [] 4 ?S) = Some (js ''a'')"
    "historyIndex (recall [] 4 ?S) = 0"
    by blast+
  from t [of "recall [] 3 ?S"] h3 k3
  have "step [] (KeyDown ArrowDown) (recall [] 3 ?S) =
      (recall [] 3 ?S)\<lparr>historyIndex := historyIndex (recall [] 3 ?S) + 1,
         currentInput := Some (commandHistory (recall [] 3 ?S) !
           nat (historyIndex (recall [] 3 ?S) + 1))\<rparr>"
    by simp
  then have d3: "currentInput (step [] (KeyDown ArrowDown) (recall [] 3 ?S)) = Some (js ''b'')"
    using h3 k3 by simp
  from t [of "recall [] 1 ?S"] h1 k1
  have "step [] (KeyDown ArrowDown) (recall [] 1 ?S) =
      (recall [] 1 ?S)\<lparr>historyIndex := - 1, currentInput := Some []\<rparr>"
    by simp
  then have d1: "currentInput (step [] (KeyDown ArrowDown) (recall [] 1 ?S)) = Some []"
    "historyIndex (step [] (KeyDown ArrowDown) (recall [] 1 ?S)) = - 1"
    by simp_all
  from reachable_initial [of "[]"] idle_initial [of "[]"] a_ordinary b_ordinary c_ordinary
    e up d3 d1
  show ?thesis by blast
qed

section \<open>The transcript\<close>

lemma kept_same: "kept s (lines s)"
  by (simp add: kept_def)

lemma kept_append: "kept s (lines s @ added)"
  by (simp add: kept_def)

lemma lines_arrowUp: "lines (handleKeyDown now ArrowUp s) = lines s"
  by (simp add: handleKeyDown_def Let_def)

lemma lines_arrowDown: "lines (handleKeyDown now ArrowDown s) = lines s"
  by (simp add: handleKeyDown_def Let_def)

lemma added_enter:
  assumes "\<not> clears (KeyDown Enter) s"
  shows "prefix (lines s) (lines (handleKeyDown now Enter s))"
proof (cases "isProcessing s")
  case True
  then show ?thesis by (simp add: enter_processing)
next
  case False
  show ?thesis
  proof (cases "currentInput s")
    case None
    then show ?thesis by (simp add: enter_undefined)
  next
    case (Some input)
    from input_cases [of input] show ?thesis
    proof (elim disjE)
      assume "trim input = []"
      with Some show ?thesis by (simp add: enter_blank)
    next
      assume "toLowerCase (trim input) = js ''clear''"
      with assms Some False show ?thesis by (simp add: clears_def)
    next
      assume "ordinary input"
      with Some False show ?thesis by (simp add: enter_ordinary)
    qed
  qed
qed

text \<open>Only the timer of the call in flight can change a line that is in the transcript.\<close>

lemma added_step:
  assumes wf: "well_formed s" and n: "\<not> clears e s"
    and o: "\<not> isProcessing s \<or> e \<noteq> Timer 0"
  shows "prefix (lines s) (lines (step now e s))"
proof (cases e)
  case (KeyDown k)
  with n show ?thesis
    by (cases k) (simp_all add: added_enter lines_arrowUp lines_arrowDown otherKey)
next
  case (Change v)
  then show ?thesis by simp
next
  case (SuggestionClick suggestion)
  then show ?thesis by (simp add: handleSuggestionClick_def)
next
  case (Timer k)
  from wf have one: "length (tasks s) \<le> 1" and flag: "isProcessing s \<longleftrightarrow> tasks s \<noteq> []"
    by (simp_all add: well_formed_def one_in_flight_def)
  from o Timer have "tasks s = [] \<or> 0 < k" using flag by auto
  with one have "length (tasks s) \<le> k" by (cases "tasks s") auto
  with Timer show ?thesis by (simp add: wake_out_of_range)
qed

lemma kept_wake:
  assumes wf: "well_formed s"
  shows "kept s (lines (wake now 0 s))"
proof (cases "tasks s")
  case Nil
  then show ?thesis by (simp add: wake_out_of_range kept_same)
next
  case (Cons t ts)
  with wf have ts: "ts = []" by (simp add: well_formed_def one_in_flight_def)
  show ?thesis
  proof (cases t)
    case (Sleeping matched command)
    show ?thesis
    proof (cases matched)
      case None
      with Sleeping Cons ts have "tasks s = [Sleeping None command]" by simp
      then show ?thesis by (simp add: wake_unmatched kept_append)
    next
      case (Some entry)
      obtain key config where "entry = (key, config)" by (cases entry)
      with Some Sleeping Cons ts
      have "tasks s = [Sleeping (Some (key, config)) command]" by simp
      then show ?thesis by (simp add: wake_matched kept_append)
    qed
  next
    case (Typing words i currentText tstamp dl)
    with Cons ts have t: "tasks s = [Typing words i currentText tstamp dl]" by simp
    show ?thesis
    proof (cases "i < length words")
      case True
      from wf t have ne: "lines s \<noteq> []"
        and la: "last (lines s) =
          \<lparr>type = Output, content = currentText, timestamp = Some tstamp\<rparr>"
        by (simp_all add: well_formed_def reveal_line_def)
      then have l: "lines s = butlast (lines s) @
          [\<lparr>type = Output, content = currentText, timestamp = Some tstamp\<rparr>]"
        by (metis append_butlast_last_id)
      let ?c = "currentText @ (if 0 < i then js '' '' else []) @ words ! i"
      have "setLastOutput ?c tstamp (lines s) =
          butlast (lines s) @ [\<lparr>type = Output, content = ?c, timestamp = Some tstamp\<rparr>]"
        by (subst l) (simp add: setLastOutput_snoc)
      then have "lines (wake now 0 s) =
          butlast (lines s) @ [\<lparr>type = Output, content = ?c, timestamp = Some tstamp\<rparr>]"
        using t True by (simp add: wake_typing_more)
      with True ne la
      have "writes_token (Typing words i currentText tstamp dl) (lines s) (lines (wake now 0 s))"
        by simp
      with t show ?thesis by (simp add: kept_def)
    next
      case False
      with t show ?thesis by (simp add: wake_typing_done kept_same)
    qed
  qed
qed

lemma kept_step:
  assumes wf: "well_formed s" and n: "\<not> clears e s"
  shows "kept s (lines (step now e s))"
proof (cases "e = Timer 0")
  case True
  with wf show ?thesis by (simp add: kept_wake)
next
  case False
  with wf n have "prefix (lines s) (lines (step now e s))" by (intro added_step) simp_all
  then show ?thesis by (simp add: kept_def)
qed

text \<open>What a written token leaves as it was.\<close>

lemma written_token:
  assumes k: "kept s new" and p: "\<not> prefix (lines s) new"
  shows "lines s \<noteq> [] \<and> length new = length (lines s) \<and>
         butlast new = butlast (lines s) \<and>
         type (last (lines s)) = Output \<and> type (last new) = Output \<and>
         timestamp (last new) = timestamp (last (lines s)) \<and>
         prefix (content (last (lines s))) (content (last new))"
proof -
  from k p obtain t where "t \<in> set (tasks s)" and w: "writes_token t (lines s) new"
    by (auto simp: kept_def list_ex_iff)
  from w show ?thesis by (cases t) auto
qed

lemma kept_length: "kept s new \<Longrightarrow> length (lines s) \<le> length new"
proof (cases "prefix (lines s) new")
  case True
  then show ?thesis by (rule prefix_length_le)
next
  case False
  assume "kept s new"
  from written_token [OF this False] show ?thesis by simp
qed

lemma kept_nth:
  assumes k: "kept s new" and n: "Suc n < length (lines s)"
  shows "new ! n = lines s ! n"
proof (cases "prefix (lines s) new")
  case True
  then obtain added where "new = lines s @ added" by (auto simp: prefix_def)
  with n show ?thesis by (simp add: nth_append)
next
  case False
  from written_token [OF k False]
  have b: "butlast new = butlast (lines s)" and l: "length new = length (lines s)"
    by simp_all
  from n l have "new ! n = butlast new ! n" by (simp add: nth_butlast)
  also have "\<dots> = butlast (lines s) ! n" by (simp only: b)
  also have "\<dots> = lines s ! n" using n by (simp add: nth_butlast)
  finally show ?thesis .
qed

lemma cleared_step:
  assumes "clears e s"
  shows "lines (step now e s) =
     [\<lparr>type = Info, content = [0xD83E, 0xDD77] @ js '' Terminal cleared'',
       timestamp = Some now\<rparr>]"
proof -
  from assms have e: "e = KeyDown Enter" and i: "\<not> isProcessing s"
    by (simp_all add: clears_def)
  from assms obtain input where c: "currentInput s = Some input"
    and l: "toLowerCase (trim input) = js ''clear''"
    by (auto simp: clears_def split: option.splits)
  from c i l show ?thesis unfolding e by (simp add: enter_clear)
qed

lemma reachable_version_sent:
  "reachable (step [] (KeyDown Enter) (step [] (Change (js ''Version'')) (initial [])))"
  by (intro reachable.intros)

lemma version_revealing:
  assumes "n < 9"
  shows "lines (wakes (Suc n) (\<lambda>m. [])
      (step [] (KeyDown Enter) (step [] (Change (js ''Version'')) (initial [])))) =
    lines (initial []) @
      [\<lparr>type = Input, content = js ''$ shuriken '' @ js ''Version'', timestamp = Some []\<rparr>,
       \<lparr>type = Output, content = revealed (split_space version_output) (Suc n),
         timestamp = Some []\<rparr>]"
proof -
  let ?typed = "step [] (Change (js ''Version'')) (initial [])"
  have r: "reachable ?typed" by (intro reachable.intros)
  have i: "\<not> isProcessing ?typed" by (simp add: idle_initial)
  have c: "currentInput ?typed = Some (js ''Version'')" by simp
  have n: "n < length (split_space (output' \<lparr>output' = version_output, delay = 30\<rparr>))"
    using assms by (simp add: version_words)
  from revealing_matched [OF r i c version_matched n, of "\<lambda>m. []" "[]"]
  show ?thesis by simp
qed

text \<open>
  Claim C9 as stated fails: while \<^verbatim>\<open>Version\<close> is being answered, one timer expiration
  rewrites the output line that is already the fourth line of the transcript.
\<close>

theorem transcript_lines_kept_counterexample:
  "reachable (wakes (Suc 0) (\<lambda>m. [])
      (step [] (KeyDown Enter) (step [] (Change (js ''Version'')) (initial [])))) \<and>
   lines (wakes (Suc 0) (\<lambda>m. [])
      (step [] (KeyDown Enter) (step [] (Change (js ''Version'')) (initial [])))) ! 3 =
     \<lparr>type = Output, content = [0xD83E, 0xDD77], timestamp = Some []\<rparr> \<and>
   lines (step [] (Timer 0) (wakes (Suc 0) (\<lambda>m. [])
      (step [] (KeyDown Enter) (step [] (Change (js ''Version'')) (initial []))))) ! 3 =
     \<lparr>type = Output, content = [0xD83E, 0xDD77] @ js '' Shuriken'', timestamp = Some []\<rparr>"
proof -
  let ?sent = "step [] (KeyDown Enter) (step [] (Change (js ''Version'')) (initial []))"
  have r: "reachable (wakes (Suc 0) (\<lambda>m. []) ?sent)"
    using reachable_version_sent by (rule reachable_wakes)
  have a: "lines (wakes (Suc 0) (\<lambda>m. []) ?sent) ! 3 =
      \<lparr>type = Output, content = [0xD83E, 0xDD77], timestamp = Some []\<rparr>"
  proof -
    have "(0::nat) < 9" by simp
    then show ?thesis
      by (simp only: version_revealing) (simp add: lines_initial version_words)
  qed
  have "step [] (Timer 0) (wakes (Suc 0) (\<lambda>m. []) ?sent) =
      wakes (Suc (Suc 0)) (\<lambda>m. []) ?sent"
    by (simp only: wakes_last [of "Suc 0" "\<lambda>m. []"])
  moreover have "lines (wakes (Suc (Suc 0)) (\<lambda>m. []) ?sent) ! 3 =
      \<lparr>type = Output, content = [0xD83E, 0xDD77] @ js '' Shuriken'', timestamp = Some []\<rparr>"
  proof -
    have "Suc 0 < 9" by simp
    then show ?thesis
      by (simp only: version_revealing) (simp add: lines_initial version_words js_def)
  qed
  ultimately have b: "lines (step [] (Timer 0) (wakes (Suc 0) (\<lambda>m. []) ?sent)) ! 3 =
      \<lparr>type = Output, content = [0xD83E, 0xDD77] @ js '' Shuriken'', timestamp = Some []\<rparr>"
    by (simp only:)
  from r a b show ?thesis by blast
qed

text \<open>
  Claim C9, amended. From a reachable state, an accepted submission of \<^verbatim>\<open>clear\<close> replaces
  the transcript by one info line. Every other event leaves the transcript at least as long
  and every line but the last as it was. Unless the event is the timer of the call in flight,
  the old transcript is an initial part of the new one: lines are only added. The timer of
  the call in flight either adds lines, or it is a reveal writing its next token: then the
  last line was the output line of that reveal, it keeps its kind and timestamp, its text
  becomes the old text followed by the next word (after a space for all words but the first),
  and no line is added.
\<close>

theorem transcript_lines_kept:
  assumes "reachable s"
  shows
    "(clears e s \<longrightarrow>
        lines (step now e s) =
          [\<lparr>type = Info, content = [0xD83E, 0xDD77] @ js '' Terminal cleared'',
            timestamp = Some now\<rparr>]) \<and>
     (\<not> clears e s \<longrightarrow>
        kept s (lines (step now e s)) \<and>
        length (lines s) \<le> length (lines (step now e s)) \<and>
        (\<forall>n. Suc n < length (lines s) \<longrightarrow> lines (step now e s) ! n = lines s ! n) \<and>
        (\<not> isProcessing s \<or> e \<noteq> Timer 0 \<longrightarrow> prefix (lines s) (lines (step now e s))) \<and>
        (\<not> prefix (lines s) (lines (step now e s)) \<longrightarrow>
           isProcessing s \<and> e = Timer 0 \<and>
           list_ex (\<lambda>t. writes_token t (lines s) (lines (step now e s))) (tasks s) \<and>
           length (lines (step now e s)) = length (lines s) \<and>
           type (last (lines s)) = Output \<and>
           type (last (lines (step now e s))) = Output \<and>
           timestamp (last (lines (step now e s))) = timestamp (last (lines s)) \<and>
           prefix (content (last (lines s))) (content (last (lines (step now e s))))))"
proof (intro conjI impI allI)
  assume "clears e s"
  then show "lines (step now e s) =
      [\<lparr>type = Info, content = [0xD83E, 0xDD77] @ js '' Terminal cleared'',
        timestamp = Some now\<rparr>]"
    by (rule cleared_step)
next
  assume n: "\<not> clears e s"
  from assms have wf: "well_formed s" by (rule reachable_well_formed)
  then show k: "kept s (lines (step now e s))" using n by (rule kept_step)
  then show "length (lines s) \<le> length (lines (step now e s))" by (rule kept_length)
  {
    fix m
    assume "Suc m < length (lines s)"
    with k show "lines (step now e s) ! m = lines s ! m" by (rule kept_nth)
  }
  {
    assume "\<not> isProcessing s \<or> e \<noteq> Timer 0"
    with wf n show "prefix (lines s) (lines (step now e s))" by (rule added_step)
  }
  {
    assume p: "\<not> prefix (lines s) (lines (step now e s))"
    with added_step [OF wf n, of now] show "isProcessing s" and "e = Timer 0" by blast+
    from k p show "list_ex (\<lambda>t. writes_token t (lines s) (lines (step now e s))) (tasks s)"
      by (simp add: kept_def)
    from written_token [OF k p]
    show "length (lines (step now e s)) = length (lines s)"
      and "type (last (lines s)) = Output"
      and "type (last (lines (step now e s))) = Output"
      and "timestamp (last (lines (step now e s))) = timestamp (last (lines s))"
      and "prefix (content (last (lines s))) (content (last (lines (step now e s))))"
      by simp_all
  }
qed

text \<open>
  The theorem during the answer to \<^verbatim>\<open>Version\<close>, at the timer of the reveal and at a typed
  letter, and at a submission of \<^verbatim>\<open>clear\<close>.
\<close>

theorem transcript_lines_kept_witness:
  "reachable (wakes (Suc 0) (\<lambda>m. [])
      (step [] (KeyDown Enter) (step [] (Change (js ''Version'')) (initial [])))) \<and>
   \<not> clears (Timer 0) (wakes (Suc 0) (\<lambda>m. [])
      (step [] (KeyDown Enter) (step [] (Change (js ''Version'')) (initial [])))) \<and>
   kept
     (wakes (Suc 0) (\<lambda>m. [])
        (step [] (KeyDown Enter) (step [] (Change (js ''Version'')) (initial []))))
     (lines (step [] (Timer 0) (wakes (Suc 0) (\<lambda>m. [])
        (step [] (KeyDown Enter) (step [] (Change (js ''Version'')) (initial [])))))) \<and>
   \<not> prefix
     (lines (wakes (Suc 0) (\<lambda>m. [])
        (step [] (KeyDown Enter) (step [] (Change (js ''Version'')) (initial [])))))
     (lines (step [] (Timer 0) (wakes (Suc 0) (\<lambda>m. [])
        (step [] (KeyDown Enter) (step [] (Change (js ''Version'')) (initial [])))))) \<and>
   isProcessing (wakes (Suc 0) (\<lambda>m. [])
      (step [] (KeyDown Enter) (step [] (Change (js ''Version'')) (initial [])))) \<and>
   \<not> clears (Change (js ''x'')) (wakes (Suc 0) (\<lambda>m. [])
      (step [] (KeyDown Enter) (step [] (Change (js ''Version'')) (initial [])))) \<and>
   prefix
     (lines (wakes (Suc 0) (\<lambda>m. [])
        (step [] (KeyDown Enter) (step [] (Change (js ''Version'')) (initial [])))))
     (lines (step [] (Change (js ''x'')) (wakes (Suc 0) (\<lambda>m. [])
        (step [] (KeyDown Enter) (step [] (Change (js ''Version'')) (initial [])))))) \<and>
   reachable (step [] (Change (js ''  CLEAR '')) (initial [])) \<and>
   clears (KeyDown Enter) (step [] (Change (js ''  CLEAR '')) (initial [])) \<and>
   lines (step [] (KeyDown Enter) (step [] (Change (js ''  CLEAR '')) (initial []))) =
     [\<lparr>type = Info, content = [0xD83E, 0xDD77] @ js '' Terminal cleared'',
       timestamp = Some []\<rparr>]"
proof -
  let ?sent = "step [] (KeyDown Enter) (step [] (Change (js ''Version'')) (initial []))"
  let ?during = "wakes (Suc 0) (\<lambda>m. []) ?sent"
  let ?typed = "step [] (Change (js ''  CLEAR '')) (initial [])"
  have r: "reachable ?during"
    using reachable_version_sent by (rule reachable_wakes)
  have n: "\<not> clears (Timer 0) ?during" by (simp add: clears_def)
  note t = transcript_lines_kept [OF r, of "Timer 0" "[]"]
  from t n have k: "kept ?during (lines (step [] (Timer 0) ?during))" by blast
  have l1: "lines ?during =
      lines (initial []) @
        [\<lparr>type = Input, content = js ''$ shuriken '' @ js ''Version'', timestamp = Some []\<rparr>,
         \<lparr>type = Output, content = [0xD83E, 0xDD77], timestamp = Some []\<rparr>]"
  proof -
    have "(0::nat) < 9" by simp
    then show ?thesis by (simp only: version_revealing) (simp add: version_words)
  qed
  have "step [] (Timer 0) ?during = wakes (Suc (Suc 0)) (\<lambda>m. []) ?sent"
    by (simp only: wakes_last [of "Suc 0" "\<lambda>m. []"])
  moreover have "lines (wakes (Suc (Suc 0)) (\<lambda>m. []) ?sent) =
      lines (initial []) @
        [\<lparr>type = Input, content = js ''$ shuriken '' @ js ''Version'', timestamp = Some []\<rparr>,
         \<lparr>type = Output, content = [0xD83E, 0xDD77] @ js '' Shuriken'',
           timestamp = Some []\<rparr>]"
  proof -
    have "Suc 0 < 9" by simp
    then show ?thesis by (simp only: version_revealing) (simp add: version_words js_def)
  qed
  ultimately have l2: "lines (step [] (Timer 0) ?during) =
      lines (initial []) @
        [\<lparr>type = Input, content = js ''$ shuriken '' @ js ''Version'', timestamp = Some []\<rparr>,
         \<lparr>type = Output, content = [0xD83E, 0xDD77] @ js '' Shuriken'',
           timestamp = Some []\<rparr>]"
    by (simp only:)
  have np: "\<not> prefix (lines ?during) (lines (step [] (Timer 0) ?during))"
    unfolding l1 l2 by (simp add: js_def)
  from t n np have p: "isProcessing ?during" by blast
  have n': "\<not> clears (Change (js ''x'')) ?during" by (simp add: clears_def)
  from transcript_lines_kept [OF r, of "Change (js ''x'')" "[]"] n'
  have a: "prefix (lines ?during) (lines (step [] (Change (js ''x'')) ?during))" by blast
  have r': "reachable ?typed" by (intro reachable.intros)
  have c: "clears (KeyDown Enter) ?typed"
    by (simp add: clears_def idle_initial shouted_clear)
  from transcript_lines_kept [OF r', of "KeyDown Enter" "[]"] c
  have l: "lines (step [] (KeyDown Enter) ?typed) =
     [\<lparr>type = Info, content = [0xD83E, 0xDD77] @ js '' Terminal cleared'',
       timestamp = Some []\<rparr>]"
    by blast
  from r n k np p n' a r' c l show ?thesis by blast
qed

end
